theory Spec2Isabelle
  imports Complex_Main "HOL-Library.Product_Lexorder"
begin

section \<open>Cells: floating-point values with exact real arithmetic\<close>

text \<open>
  A cell of a pandas frame is a float: a finite number, an infinity or NaN (the
  "undefined" cell).  Finite values are modelled as exact reals, so rounding, overflow
  and the sign of zero are not represented; the special values follow IEEE 754.
\<close>

datatype cell = Fin real | PInf | NInf | NaN

fun isna :: "cell \<Rightarrow> bool" where
  "isna NaN = True"
| "isna _ = False"

fun cneg :: "cell \<Rightarrow> cell" where
  "cneg (Fin a) = Fin (- a)"
| "cneg PInf = NInf"
| "cneg NInf = PInf"
| "cneg NaN = NaN"

fun cadd :: "cell \<Rightarrow> cell \<Rightarrow> cell" where
  "cadd (Fin a) (Fin b) = Fin (a + b)"
| "cadd NaN _ = NaN"
| "cadd _ NaN = NaN"
| "cadd PInf NInf = NaN"
| "cadd NInf PInf = NaN"
| "cadd PInf _ = PInf"
| "cadd _ PInf = PInf"
| "cadd NInf _ = NInf"
| "cadd _ NInf = NInf"

definition csub :: "cell \<Rightarrow> cell \<Rightarrow> cell" where
  "csub x y = cadd x (cneg y)"

text \<open>The sign of an infinity times a finite factor; zero times infinity is NaN.\<close>

definition inf_signed :: "bool \<Rightarrow> real \<Rightarrow> cell" where
  "inf_signed pos a =
     (if a = 0 then NaN else if (0 < a) = pos then PInf else NInf)"

fun cmul :: "cell \<Rightarrow> cell \<Rightarrow> cell" where
  "cmul (Fin a) (Fin b) = Fin (a * b)"
| "cmul NaN _ = NaN"
| "cmul _ NaN = NaN"
| "cmul PInf (Fin b) = inf_signed True b"
| "cmul NInf (Fin b) = inf_signed False b"
| "cmul (Fin a) PInf = inf_signed True a"
| "cmul (Fin a) NInf = inf_signed False a"
| "cmul PInf PInf = PInf"
| "cmul NInf NInf = PInf"
| "cmul PInf NInf = NInf"
| "cmul NInf PInf = NInf"

text \<open>
  Division: a finite value over zero is an infinity of the numerator's sign, and
  \<open>0 / 0\<close> is NaN (numpy's float division, which does not raise).
\<close>

fun cdiv :: "cell \<Rightarrow> cell \<Rightarrow> cell" where
  "cdiv (Fin a) (Fin b) = (if b = 0 then inf_signed True a else Fin (a / b))"
| "cdiv NaN _ = NaN"
| "cdiv _ NaN = NaN"
| "cdiv (Fin a) PInf = Fin 0"
| "cdiv (Fin a) NInf = Fin 0"
| "cdiv PInf (Fin b) = (if 0 \<le> b then PInf else NInf)"
| "cdiv NInf (Fin b) = (if 0 \<le> b then NInf else PInf)"
| "cdiv PInf PInf = NaN"
| "cdiv PInf NInf = NaN"
| "cdiv NInf PInf = NaN"
| "cdiv NInf NInf = NaN"

fun csqrt :: "cell \<Rightarrow> cell" where
  "csqrt (Fin a) = (if a < 0 then NaN else Fin (sqrt a))"
| "csqrt PInf = PInf"
| "csqrt NInf = NaN"
| "csqrt NaN = NaN"

text \<open>\<open>x > 0\<close> on floats: every comparison with NaN is false.\<close>

fun cgt0 :: "cell \<Rightarrow> bool" where
  "cgt0 (Fin a) = (0 < a)"
| "cgt0 PInf = True"
| "cgt0 NInf = False"
| "cgt0 NaN = False"

text \<open>\<open>np.maximum(x, 0)\<close>: NaN propagates.\<close>

fun cmax0 :: "cell \<Rightarrow> cell" where
  "cmax0 (Fin a) = Fin (max a 0)"
| "cmax0 PInf = PInf"
| "cmax0 NInf = Fin 0"
| "cmax0 NaN = NaN"

text \<open>\<open>.sum()\<close> of a numpy array, and Python's \<open>sum\<close> from 0: NaN is not skipped.\<close>

primrec csum :: "cell list \<Rightarrow> cell" where
  "csum [] = Fin 0"
| "csum (x # xs) = cadd x (csum xs)"

definition dot :: "cell list \<Rightarrow> cell list \<Rightarrow> cell" where
  "dot u v = csum (map (\<lambda>(a, b). cmul a b) (zip u v))"

definition matvec :: "cell list list \<Rightarrow> cell list \<Rightarrow> cell list" where
  "matvec M v = map (\<lambda>r. dot r v) M"

section \<open>Frames\<close>

text \<open>
  A DataFrame: the row labels (dates as day numbers), the column labels (factor
  numbers or stock ids) and the cells, row by row.  Every row has one cell per column.
\<close>

record frame =
  index :: "nat list"
  columns :: "nat list"
  vals :: "cell list list"

definition column :: "cell list list \<Rightarrow> nat \<Rightarrow> cell list" where
  "column rs j = map (\<lambda>r. r ! j) rs"

text \<open>\<open>df.iloc[lo:hi]\<close> on the rows, for \<open>0 \<le> lo\<close>.\<close>

definition iloc :: "nat \<Rightarrow> nat \<Rightarrow> 'a list \<Rightarrow> 'a list" where
  "iloc lo hi rs = take (hi - lo) (drop lo rs)"

text \<open>\<open>Series.mean()\<close>: NaN cells are skipped; no cell left gives NaN.\<close>

definition mean :: "cell list \<Rightarrow> cell" where
  "mean xs =
     (let ys = filter (\<lambda>x. \<not> isna x) xs
      in if ys = [] then NaN else cdiv (csum ys) (Fin (real (length ys))))"

text \<open>
  One entry of \<open>DataFrame.cov()\<close>: the sample covariance (divisor \<open>n - 1\<close>) over the
  rows where both columns are present; fewer than two such rows give NaN.
\<close>

definition cov :: "cell list \<Rightarrow> cell list \<Rightarrow> cell" where
  "cov xs ys =
     (let ps = filter (\<lambda>(x, y). \<not> isna x \<and> \<not> isna y) (zip xs ys);
          n = length ps
      in if n < 2 then NaN
         else let mx = mean (map fst ps); my = mean (map snd ps)
              in cdiv (csum (map (\<lambda>(x, y). cmul (csub x mx) (csub y my)) ps))
                      (Fin (real (n - 1))))"

definition means :: "nat \<Rightarrow> cell list list \<Rightarrow> cell list" where
  "means N rs = map (\<lambda>j. mean (column rs j)) [0..<N]"

definition cov_matrix :: "nat \<Rightarrow> cell list list \<Rightarrow> cell list list" where
  "cov_matrix N rs =
     map (\<lambda>j. map (\<lambda>k. cov (column rs j) (column rs k)) [0..<N]) [0..<N]"

section \<open>The analytical maximum-IC estimator\<close>

text \<open>
  \<open>np.linalg.pinv\<close> is a parameter: it returns the pseudo-inverse, or \<open>None\<close> where
  numpy raises \<open>LinAlgError\<close>.
\<close>

type_synonym pinv_fn = "cell list list \<Rightarrow> cell list list option"

text \<open>The \<open>try\<close> block of \<open>calc_max_ic_weights\<close>: \<open>raw_w\<close> before clipping.\<close>

definition raw_w :: "pinv_fn \<Rightarrow> nat \<Rightarrow> cell list list \<Rightarrow> cell list" where
  "raw_w pinv N window_df =
     (let bar_ic = means N window_df;
          V = cov_matrix N window_df
      in case pinv V of
           Some V_inv \<Rightarrow> matvec V_inv bar_ic
         | None \<Rightarrow> replicate (length bar_ic) (Fin 1))"

text \<open>Clipping and normalisation of one row.\<close>

definition norm_w :: "bool \<Rightarrow> cell list \<Rightarrow> cell list" where
  "norm_w neg_weight raw =
     (let raw = (if \<not> neg_weight then map cmax0 raw else raw)
      in if cgt0 (csum raw) then map (\<lambda>x. cdiv x (csum raw)) raw
         else map (\<lambda>x. cdiv (Fin 1) (Fin (real (length raw)))) raw)"

text \<open>
  The loop \<open>for i in range(window, len(ic_df))\<close>, assigning row \<open>i\<close> of a frame that
  starts all NaN.  The window is a natural number; a negative window is outside the
  model.
\<close>

definition calc_max_ic_weights :: "pinv_fn \<Rightarrow> frame \<Rightarrow> nat \<Rightarrow> bool \<Rightarrow> frame" where
  "calc_max_ic_weights pinv ic_df window neg_weight =
     (let N = length (columns ic_df);
          weights = replicate (length (vals ic_df)) (replicate N NaN)
      in ic_df\<lparr>vals :=
           fold (\<lambda>i w. w[i := norm_w neg_weight
                                 (raw_w pinv N (iloc (i - window) i (vals ic_df)))])
                [window..<length (vals ic_df)] weights\<rparr>)"

text \<open>
  A stand-in for \<open>np.linalg.pinv\<close> on finite \<open>2 \<times> 2\<close> matrices, used to run the
  estimator on two factors: the inverse when the determinant is not zero, the zero
  matrix for the zero matrix, and the transpose over the squared Frobenius norm for a
  matrix of rank one.  A matrix with a NaN or infinite entry gives \<open>None\<close>, the
  \<open>LinAlgError\<close> of numpy's singular value decomposition.
\<close>

definition pinv_real :: "real \<Rightarrow> real \<Rightarrow> real \<Rightarrow> real \<Rightarrow> real \<times> real \<times> real \<times> real" where
  "pinv_real a b c d =
     (let det = a * d - b * c; q = a * a + b * b + c * c + d * d
      in if det \<noteq> 0 then (d / det, - b / det, - c / det, a / det)
         else if q = 0 then (0, 0, 0, 0)
         else (a / q, c / q, b / q, d / q))"

fun pinv_2x2 :: pinv_fn where
  "pinv_2x2 [[Fin a, Fin b], [Fin c, Fin d]] =
     (case pinv_real a b c d of
        (p, q, r, s) \<Rightarrow> Some [[Fin p, Fin q], [Fin r, Fin s]])"
| "pinv_2x2 _ = None"

section \<open>The numerical maximum-IR estimator\<close>

text \<open>
  \<open>scipy.optimize.minimize\<close> is a parameter: it takes the objective, the start
  vector, the bounds (lower, upper; \<open>None\<close> for no bound) and the equality constraint,
  and returns \<open>result.success\<close> and \<open>result.x\<close>.
\<close>

type_synonym minimize_fn =
  "(cell list \<Rightarrow> cell) \<Rightarrow> cell list \<Rightarrow> (cell option \<times> cell option) list
     \<Rightarrow> (cell list \<Rightarrow> cell) \<Rightarrow> bool \<times> cell list"

text \<open>The objective: the negated ratio, with \<open>1e6\<close> in place of a zero denominator.\<close>

definition neg_ic_ir :: "cell list \<Rightarrow> cell list list \<Rightarrow> cell list \<Rightarrow> cell" where
  "neg_ic_ir bar_ic sigma w =
     (let numerator = dot w bar_ic;
          denominator = csqrt (dot w (matvec sigma w))
      in cdiv (cneg numerator)
              (if denominator \<noteq> Fin 0 then denominator else Fin 1000000))"

text \<open>The call \<open>minimize(neg_ic_ir, x0, bounds=bounds, constraints=constraints)\<close>.\<close>

definition solve_window ::
  "minimize_fn \<Rightarrow> nat \<Rightarrow> cell list list \<Rightarrow> bool \<Rightarrow> bool \<times> cell list" where
  "solve_window minimize N window_df neg_weight =
     (let bar_ic = means N window_df;
          sigma = cov_matrix N window_df;
          n = length bar_ic;
          x0 = replicate n (cdiv (Fin 1) (Fin (real n)));
          bounds = replicate n (if neg_weight then (None, None) else (Some (Fin 0), None))
      in minimize (neg_ic_ir bar_ic sigma) x0 bounds (\<lambda>w. csub (csum w) (Fin 1)))"

definition optimize_window ::
  "minimize_fn \<Rightarrow> nat \<Rightarrow> cell list list \<Rightarrow> bool \<Rightarrow> cell list" where
  "optimize_window minimize N window_df neg_weight =
     (case solve_window minimize N window_df neg_weight of
        (success, x) \<Rightarrow> if success then x else replicate N NaN)"

text \<open>
  The loop \<open>for i in range(len(ic_df))\<close> with \<open>continue\<close> below \<open>window\<close>.  The call
  in the loop does not pass \<open>neg_weight\<close> on, so \<open>optimize_window\<close> runs with its
  default \<open>False\<close>.
\<close>

definition calc_max_ir_weights :: "minimize_fn \<Rightarrow> frame \<Rightarrow> nat \<Rightarrow> bool \<Rightarrow> frame" where
  "calc_max_ir_weights minimize ic_df window neg_weight =
     (let N = length (columns ic_df);
          weights = replicate (length (vals ic_df)) (replicate N NaN)
      in ic_df\<lparr>vals :=
           fold (\<lambda>i w. if i < window then w
                        else w[i := optimize_window minimize N
                                      (iloc (i - window) i (vals ic_df)) False])
                [0..<length (vals ic_df)] weights\<rparr>)"

section \<open>The return resampler\<close>

text \<open>
  \<open>dates.searchsorted(d)\<close>: the position of the first date that is not before \<open>d\<close>.
  In \<open>resample_returns\<close> the array is the sorted schedule followed by the last daily
  date, and every \<open>d\<close> looked up is at most that last date, so the binary search of
  numpy finds this position.
\<close>

definition searchsorted :: "nat list \<Rightarrow> nat \<Rightarrow> nat" where
  "searchsorted dates d = length (takeWhile (\<lambda>s. s < d) dates)"

text \<open>\<open>.prod()\<close> of a column whose NaN cells have been skipped.\<close>

primrec cprod :: "cell list \<Rightarrow> cell" where
  "cprod [] = Fin 1"
| "cprod (x # xs) = cmul x (cprod xs)"

text \<open>
  \<open>cum_rtns\<close> on one column of a group: \<open>(group + 1).prod() - 1\<close>, where \<open>prod\<close>
  skips NaN, and NaN for a column that is NaN on every day of the group.
\<close>

definition cum_rtn :: "cell list \<Rightarrow> cell" where
  "cum_rtn xs =
     (if list_all isna xs then NaN
      else csub (cprod (filter (\<lambda>x. \<not> isna x) (map (\<lambda>x. cadd x (Fin 1)) xs))) (Fin 1))"

definition cum_rtns :: "nat \<Rightarrow> cell list list \<Rightarrow> cell list" where
  "cum_rtns N grp = map (\<lambda>j. cum_rtn (column grp j)) [0..<N]"

text \<open>\<open>groupby(keys)\<close>: one group per key, in key order, each with its rows in order.\<close>

definition groupby :: "nat list \<Rightarrow> 'a list \<Rightarrow> (nat \<times> 'a list) list" where
  "groupby keys rs =
     map (\<lambda>k. (k, map snd (filter (\<lambda>(k', r). k' = k) (zip keys rs)))) (sort (remdups keys))"

text \<open>\<open>.shift(-1)\<close> and \<open>.shift(1)\<close> on the rows of a frame with \<open>N\<close> columns.\<close>

definition shift_up :: "nat \<Rightarrow> cell list list \<Rightarrow> cell list list" where
  "shift_up N rs = (if rs = [] then [] else tl rs @ [replicate N NaN])"

definition shift_down :: "nat \<Rightarrow> cell list list \<Rightarrow> cell list list" where
  "shift_down N rs = (if rs = [] then [] else replicate N NaN # butlast rs)"

text \<open>\<open>.dropna(how='all')\<close>: a row goes when every cell of it is NaN.\<close>

definition dropna_all :: "frame \<Rightarrow> frame" where
  "dropna_all f =
     (let kept = filter (\<lambda>(d, r). \<not> list_all isna r) (zip (index f) (vals f))
      in f\<lparr>index := map fst kept, vals := map snd kept\<rparr>)"

text \<open>
  \<open>resample_returns\<close>, the branch that uses the rebalance schedule;
  \<open>rebalance_date\<close> is the list \<open>_get_rebalance_date(t)\<close>.  The \<open>except\<close> branch, taken
  when the schedule cannot be had, resamples by calendar period and is not modelled.
  With no daily row there is no key, and the maximum of the empty index is not used.
\<close>

definition resample_returns :: "nat list \<Rightarrow> frame \<Rightarrow> frame" where
  "resample_returns rebalance_date returns =
     (let dates = rebalance_date @ [Max (set (index returns))];
          keys = map (\<lambda>d. dates ! searchsorted dates d) (index returns);
          N = length (columns returns);
          grouped = map (\<lambda>(k, g). (k, cum_rtns N g)) (groupby keys (vals returns))
      in dropna_all \<lparr>index = map fst grouped, columns = columns returns,
                      vals = shift_up N (map snd grouped)\<rparr>)"

text \<open>
  The daily rows of the interval that ends at the key \<open>k\<close>: the rows whose date has
  \<open>k\<close> as the first date of \<open>dates\<close> not before it.
\<close>

definition interval_rows :: "nat list \<Rightarrow> frame \<Rightarrow> nat \<Rightarrow> cell list list" where
  "interval_rows rebalance_date returns k =
     (let dates = rebalance_date @ [Max (set (index returns))]
      in map snd (filter (\<lambda>(d, r). dates ! searchsorted dates d = k)
                         (zip (index returns) (vals returns))))"

text \<open>A frame is well formed when it has one row per label and one cell per column
  in every row; its cells are real or missing when none is infinite.\<close>

definition wf_frame :: "frame \<Rightarrow> bool" where
  "wf_frame f \<longleftrightarrow>
     length (vals f) = length (index f) \<and> list_all (\<lambda>r. length r = length (columns f)) (vals f)"

fun real_or_nan :: "cell \<Rightarrow> bool" where
  "real_or_nan (Fin a) = True"
| "real_or_nan NaN = True"
| "real_or_nan _ = False"

definition real_or_missing :: "frame \<Rightarrow> bool" where
  "real_or_missing f \<longleftrightarrow> list_all (list_all real_or_nan) (vals f)"

text \<open>The growth factor of one day: \<open>1 + r\<close>, and \<open>1\<close> for a missing day.\<close>

fun growth :: "cell \<Rightarrow> real" where
  "growth (Fin a) = 1 + a"
| "growth _ = 1"

text \<open>
  The keys of the groups of \<open>resample_returns\<close>, in increasing order: the dates that
  label the intervals of the daily rows.
\<close>

definition period_keys :: "nat list \<Rightarrow> frame \<Rightarrow> nat list" where
  "period_keys rebalance_date returns =
     (let dates = rebalance_date @ [Max (set (index returns))]
      in sort (remdups (map (\<lambda>d. dates ! searchsorted dates d) (index returns))))"

text \<open>
  The period return of column \<open>j\<close> over the daily rows \<open>g\<close> of one interval, in the
  words of the specification: undefined only when every daily value of the column is
  undefined, and otherwise the product of the daily growth factors minus one, a missing
  day counting as zero return.
\<close>

definition period_cell :: "cell list list \<Rightarrow> nat \<Rightarrow> cell" where
  "period_cell g j =
     (if list_all (\<lambda>r. isna (r ! j)) g then NaN
      else Fin (prod_list (map (\<lambda>r. growth (r ! j)) g) - 1))"

section \<open>The factor combiner\<close>

text \<open>
  The collaborators of \<open>combine_factors\<close> that are not part of the analysis module are
  parameters: the rebalance schedule \<open>_get_rebalance_date\<close>, \<open>get_factor\<close> with its
  optional universe, the regression coefficients of \<open>calc_reg_returns\<close> (which reads the
  return data set and fits a regression per date), the IC series of \<open>calc_info_coef\<close> on
  the return data set, the pseudo-inverse and the solver.
\<close>

record env =
  get_rebalance_date :: "string \<Rightarrow> nat list"
  get_factor :: "frame \<Rightarrow> frame option \<Rightarrow> frame"
  reg_returns :: "((nat \<times> nat) \<times> cell list) list \<Rightarrow> string \<Rightarrow> frame"
  info_coef :: "frame \<Rightarrow> string \<Rightarrow> (nat \<times> cell) list"
  np_pinv :: pinv_fn
  sp_minimize :: minimize_fn

text \<open>The dictionary \<open>params\<close> with its two keys.\<close>

record params =
  p_window :: nat
  p_neg_weight :: bool

datatype py_error = ValueError string | ZeroDivisionError

text \<open>\<open>s.startswith(p)\<close>, \<open>s.endswith(p)\<close> and \<open>s.split(c)\<close>.\<close>

definition startswith :: "string \<Rightarrow> string \<Rightarrow> bool" where
  "startswith s p \<longleftrightarrow> take (length p) s = p"

definition endswith :: "string \<Rightarrow> string \<Rightarrow> bool" where
  "endswith s p \<longleftrightarrow> length p \<le> length s \<and> drop (length s - length p) s = p"

fun split :: "char \<Rightarrow> string \<Rightarrow> string list" where
  "split c [] = [[]]"
| "split c (x # xs) =
     (if x = c then [] # split c xs
      else case split c xs of y # ys \<Rightarrow> (x # y) # ys | [] \<Rightarrow> [[x]])"

text \<open>
  A rolling window of \<open>w\<close> rows over one column: the result is NaN until \<open>w\<close> rows are
  there and wherever the window holds a NaN (\<open>min_periods\<close> is the window size); the
  mean and the standard deviation of a window of size 0 are NaN everywhere.
\<close>

definition rolling :: "nat \<Rightarrow> (cell list \<Rightarrow> cell) \<Rightarrow> cell list \<Rightarrow> cell list" where
  "rolling w f xs =
     map (\<lambda>i. if w = 0 \<or> i + 1 < w then NaN
               else let win = iloc (i + 1 - w) (i + 1) xs
                    in if list_ex isna win then NaN else f win)
         [0..<length xs]"

definition roll_mean :: "cell list \<Rightarrow> cell" where
  "roll_mean win = cdiv (csum win) (Fin (real (length win)))"

definition roll_std :: "cell list \<Rightarrow> cell" where
  "roll_std win =
     (let m = roll_mean win
      in csqrt (cdiv (csum (map (\<lambda>x. cmul (csub x m) (csub x m)) win))
                     (Fin (real (length win - 1)))))"

text \<open>
  \<open>x.ewm(halflife=window/2, adjust=False).mean().iloc[-1]\<close> on a window without NaN:
  the recursion \<open>y\<^sub>0 = x\<^sub>0\<close>, \<open>y\<^sub>t = (1 - \<alpha>) y\<^sub>t\<^sub>-\<^sub>1 + \<alpha> x\<^sub>t\<close> with
  \<open>\<alpha> = 1 - 0.5 ^ (1 / halflife)\<close>.
\<close>

definition ewm_last :: "nat \<Rightarrow> cell list \<Rightarrow> cell" where
  "ewm_last w win =
     (let halflife = real w / 2;
          alpha = 1 - (1 / 2) powr (1 / halflife)
      in foldl (\<lambda>y x. cadd (cmul (Fin (1 - alpha)) y) (cmul (Fin alpha) x)) (hd win) (tl win))"

text \<open>A column operation applied to every column of a frame.\<close>

definition by_column :: "(cell list \<Rightarrow> cell list) \<Rightarrow> frame \<Rightarrow> frame" where
  "by_column f df =
     (let cols = map (\<lambda>j. f (column (vals df) j)) [0..<length (columns df)]
      in df\<lparr>vals := map (\<lambda>i. map (\<lambda>c. c ! i) cols) [0..<length (vals df)]\<rparr>)"

definition shift1 :: "frame \<Rightarrow> frame" where
  "shift1 df = df\<lparr>vals := shift_down (length (columns df)) (vals df)\<rparr>"

text \<open>Cell by cell division of two frames with the same labels.\<close>

definition frame_div :: "frame \<Rightarrow> frame \<Rightarrow> frame" where
  "frame_div a b = a\<lparr>vals := map (\<lambda>(r, s). map (\<lambda>(x, y). cdiv x y) (zip r s)) (zip (vals a) (vals b))\<rparr>"

text \<open>
  The weights of the \<open>HR\<close> branch, from the regression coefficients: the rolling mean
  shifted by one row for a method without a dash, the rolling exponentially weighted
  mean for \<open>HR-decay\<close>, and the coefficients as they are otherwise.  With a window of
  0 the function given to \<open>apply\<close> is called on the windows of a frame that has a cell,
  and \<open>ewm\<close> raises for the half-life 0.
\<close>

definition hr_weights :: "string \<Rightarrow> params \<Rightarrow> frame \<Rightarrow> py_error + frame" where
  "hr_weights method params weights =
     (if length (split CHR ''-'' method) = 1
      then Inr (shift1 (by_column (rolling (p_window params) roll_mean) weights))
      else if length (split CHR ''-'' method) = 2 \<and> split CHR ''-'' method ! 1 = ''decay''
      then (if p_window params = 0 \<and> vals weights \<noteq> [] \<and> columns weights \<noteq> []
            then Inl (ValueError ''halflife must satisfy: halflife > 0'')
            else Inr (by_column (rolling (p_window params) (ewm_last (p_window params)))
                                weights))
      else Inr weights)"

text \<open>The weights of the \<open>IC\<close>/\<open>IR\<close> branch, from the IC matrix.\<close>

definition ic_weights ::
  "pinv_fn \<Rightarrow> minimize_fn \<Rightarrow> string \<Rightarrow> params \<Rightarrow> frame \<Rightarrow> py_error + frame" where
  "ic_weights pinv minimize method params ic_df =
     (if method = ''IC''
      then Inr (shift1 (by_column (rolling (p_window params) roll_mean) ic_df))
      else if method = ''IR''
      then Inr (shift1 (frame_div (by_column (rolling (p_window params) roll_mean) ic_df)
                                  (by_column (rolling (p_window params) roll_std) ic_df)))
      else if method = ''MAX_IC''
      then Inr (shift1 (calc_max_ic_weights pinv ic_df (p_window params) (p_neg_weight params)))
      else if method = ''MAX_IR''
      then Inr (shift1 (calc_max_ir_weights minimize ic_df (p_window params) (p_neg_weight params)))
      else Inl (ValueError (''Invalid method: '' @ method)))"

text \<open>\<open>f[f.index.isin(dates)].stack()\<close>: the cells that are not NaN, keyed by date
  and stock.\<close>

definition stack :: "nat list \<Rightarrow> frame \<Rightarrow> ((nat \<times> nat) \<times> cell) list" where
  "stack dates f =
     concat (map (\<lambda>(d, r). map (\<lambda>(a, x). ((d, a), x))
                               (filter (\<lambda>(a, x). \<not> isna x) (zip (columns f) r)))
                 (filter (\<lambda>(d, r). d \<in> set dates) (zip (index f) (vals f))))"

text \<open>\<open>pd.concat(series, axis=1).dropna()\<close>: one row per key that every series has.\<close>

definition concat_dropna :: "('k::linorder \<times> cell) list list \<Rightarrow> ('k \<times> cell list) list" where
  "concat_dropna ss =
     filter (\<lambda>(k, xs). \<not> list_ex isna xs)
       (map (\<lambda>k. (k, map (\<lambda>s. case map_of s k of Some x \<Rightarrow> x | None \<Rightarrow> NaN) ss))
            (sort (remdups (concat (map (map fst) ss)))))"

definition series_frame :: "(nat \<times> cell list) list \<Rightarrow> nat \<Rightarrow> frame" where
  "series_frame rs n = \<lparr>index = map fst rs, columns = [0..<n], vals = map snd rs\<rparr>"

text \<open>\<open>.unstack()\<close> of a series keyed by date and stock.\<close>

definition unstack :: "((nat \<times> nat) \<times> cell) list \<Rightarrow> frame" where
  "unstack s =
     (let ds = sort (remdups (map (fst \<circ> fst) s));
          as = sort (remdups (map (snd \<circ> fst) s))
      in \<lparr>index = ds, columns = as,
          vals = map (\<lambda>d. map (\<lambda>a. case map_of s (d, a) of Some x \<Rightarrow> x | None \<Rightarrow> NaN) as) ds\<rparr>)"

text \<open>
  The \<open>factor\<close> column of \<open>calc_weighted_factors\<close> on one row: the sum of the products
  over the sum of the weights, both taken over the columns of the weight frame (which
  carry the factor numbers \<open>0, \<dots>, N - 1\<close>).
\<close>

definition weighted_cell :: "nat \<Rightarrow> cell list \<Rightarrow> cell list \<Rightarrow> cell" where
  "weighted_cell N xs w =
     cdiv (csum (map (\<lambda>j. cmul (xs ! j) (w ! j)) [0..<N])) (csum (map (\<lambda>j. w ! j) [0..<N]))"

text \<open>\<open>calc_weighted_factors\<close>: the inner join with the weights on the date, the
  weighted cell of each row, and the result unstacked.\<close>

definition calc_weighted_factors :: "((nat \<times> nat) \<times> cell list) list \<Rightarrow> frame \<Rightarrow> frame" where
  "calc_weighted_factors factors_df weights =
     unstack (concat (map (\<lambda>(k, xs).
        case map_of (zip (index weights) (vals weights)) (fst k) of
          None \<Rightarrow> []
        | Some w \<Rightarrow> [(k, weighted_cell (length (columns weights)) xs w)]) factors_df))"

text \<open>
  \<open>sum(factors) / len(factors)\<close>: frames add cell by cell on the union of their
  labels, a cell missing on either side giving NaN.
\<close>

definition align :: "nat list \<Rightarrow> nat list \<Rightarrow> nat list" where
  "align xs ys = (if xs = ys then xs else sort (remdups (xs @ ys)))"

definition cell_at :: "frame \<Rightarrow> nat \<Rightarrow> nat \<Rightarrow> cell" where
  "cell_at f d a =
     (case map_of (zip (index f) (vals f)) d of
        None \<Rightarrow> NaN
      | Some r \<Rightarrow> (case map_of (zip (columns f) r) a of None \<Rightarrow> NaN | Some x \<Rightarrow> x))"

definition frame_add :: "frame \<Rightarrow> frame \<Rightarrow> frame" where
  "frame_add f g =
     (let ds = align (index f) (index g); as = align (columns f) (columns g)
      in \<lparr>index = ds, columns = as,
          vals = map (\<lambda>d. map (\<lambda>a. cadd (cell_at f d a) (cell_at g d a)) as) ds\<rparr>)"

definition frame_over :: "frame \<Rightarrow> nat \<Rightarrow> frame" where
  "frame_over f n = f\<lparr>vals := map (map (\<lambda>x. cdiv x (Fin (real n)))) (vals f)\<rparr>"

text \<open>
  \<open>combine_factors\<close>.  The result is the raised error, or what the function returns:
  \<open>None\<close> where the body ends without a \<open>return\<close>.  \<open>pd.concat\<close> raises for an empty
  list of factors.
\<close>

definition combine_factors ::
  "env \<Rightarrow> frame list \<Rightarrow> string \<Rightarrow> string \<Rightarrow> params \<Rightarrow> frame option
     \<Rightarrow> py_error + frame option" where
  "combine_factors e factors method rebalance params universe =
     (if method = ''EW''
      then (case factors of
              [] \<Rightarrow> Inl ZeroDivisionError
            | f # fs \<Rightarrow>
                Inr (Some (get_factor e (frame_over (foldl frame_add f fs) (length factors))
                                      universe)))
      else if startswith method ''HR''
      then (if factors = [] then Inl (ValueError ''No objects to concatenate'')
            else let factors_df =
                       concat_dropna (map (stack (get_rebalance_date e rebalance)) factors)
                 in case hr_weights method params (reg_returns e factors_df rebalance) of
                      Inl err \<Rightarrow> Inl err
                    | Inr weights \<Rightarrow>
                        Inr (Some (get_factor e (calc_weighted_factors factors_df weights)
                                              universe)))
      else if endswith method ''IC'' \<or> endswith method ''IR''
      then (if factors = [] then Inl (ValueError ''No objects to concatenate'')
            else let factors_df =
                       concat_dropna (map (stack (get_rebalance_date e rebalance)) factors);
                     ic_df = series_frame
                               (concat_dropna (map (\<lambda>f. info_coef e f rebalance) factors))
                               (length factors)
                 in case ic_weights (np_pinv e) (sp_minimize e) method params ic_df of
                      Inl err \<Rightarrow> Inl err
                    | Inr weights \<Rightarrow>
                        Inr (Some (get_factor e (calc_weighted_factors factors_df weights)
                                              universe)))
      else Inr None)"

section \<open>Inputs and collaborators for the worked examples\<close>

text \<open>Two solvers to run \<open>calc_max_ir_weights\<close> with: one that reports failure, and
  one that reports success at the start vector.\<close>

definition minimize_fails :: minimize_fn where
  "minimize_fails f x0 bounds con = (False, x0)"

definition minimize_start :: minimize_fn where
  "minimize_start f x0 bounds con = (True, x0)"

text \<open>An IC matrix of two factors whose first two rows are collinear (the second
  column is twice the first), the same matrix with another last row, and one with a
  negative raw weight.\<close>

definition ic_collinear :: frame where
  "ic_collinear = \<lparr>index = [1, 2, 3], columns = [0, 1],
      vals = [[Fin (1/10), Fin (2/10)], [Fin (2/10), Fin (4/10)], [Fin (3/10), Fin (1/10)]]\<rparr>"

definition ic_changed_later :: frame where
  "ic_changed_later = \<lparr>index = [1, 2, 3], columns = [0, 1],
      vals = [[Fin (1/10), Fin (2/10)], [Fin (2/10), Fin (4/10)], [Fin (-5), NaN]]\<rparr>"

definition ic_mixed :: frame where
  "ic_mixed = \<lparr>index = [1, 2, 3], columns = [0, 1],
      vals = [[Fin (1/10), Fin (3/10)], [Fin (2/10), Fin (1/10)], [Fin (3/10), Fin (1/10)]]\<rparr>"


text \<open>Daily returns: one day on the schedule date 10 and the four days
  \<open>0.01, 0.02, NaN, 0.01\<close> of the interval that ends at 20; and six days over three
  periods of the schedule \<open>[10, 20, 30]\<close>.\<close>

definition daily_scenario :: frame where
  "daily_scenario = \<lparr>index = [10, 11, 12, 13, 14], columns = [0],
     vals = [[Fin (1/20)], [Fin (1/100)], [Fin (1/50)], [NaN], [Fin (1/100)]]\<rparr>"

definition daily_three_periods :: frame where
  "daily_three_periods = \<lparr>index = [5, 10, 15, 20, 25, 30], columns = [0],
     vals = [[Fin (1/10)], [Fin (1/10)], [Fin (1/5)], [Fin (1/5)], [Fin (3/10)], [Fin (3/10)]]\<rparr>"

text \<open>Regression coefficients of one factor on three dates, and an IC matrix with a
  negative entry.\<close>

definition reg_three :: frame where
  "reg_three = \<lparr>index = [1, 2, 3], columns = [0], vals = [[Fin 1], [Fin 3], [Fin 5]]\<rparr>"

definition ic_negative :: frame where
  "ic_negative = \<lparr>index = [1, 2], columns = [0, 1],
      vals = [[Fin (- (1/10)), Fin (1/20)], [Fin (1/10), Fin (1/20)]]\<rparr>"

text \<open>Two factors on one stock with the constant values 10 and 40, regression
  coefficients that change on the third date, and collaborators that return them:
  a schedule of three dates and a \<open>get_factor\<close> that hands the frame back.\<close>

definition reg_two :: frame where
  "reg_two = \<lparr>index = [10, 20, 30], columns = [0, 1],
      vals = [[Fin 1, Fin 1], [Fin 1, Fin 1], [Fin 3, Fin 1]]\<rparr>"

definition factor_a :: frame where
  "factor_a = \<lparr>index = [10, 20, 30], columns = [7], vals = [[Fin 10], [Fin 10], [Fin 10]]\<rparr>"

definition factor_b :: frame where
  "factor_b = \<lparr>index = [10, 20, 30], columns = [7], vals = [[Fin 40], [Fin 40], [Fin 40]]\<rparr>"

definition env_hr :: env where
  "env_hr = \<lparr>get_rebalance_date = (\<lambda>code. [10, 20, 30]), get_factor = (\<lambda>f universe. f),
      reg_returns = (\<lambda>factors_df code. reg_two), info_coef = (\<lambda>f code. []),
      np_pinv = pinv_2x2, sp_minimize = minimize_start\<rparr>"

text \<open>The same days for a first stock, next to a second stock that has no value in
  the interval that ends at 20.\<close>

definition daily_two_stocks :: frame where
  "daily_two_stocks = \<lparr>index = [10, 11, 12, 13, 14], columns = [0, 1],
     vals = [[Fin (1/20), Fin (1/20)], [Fin (1/100), NaN], [Fin (1/50), NaN], [NaN, NaN],
             [Fin (1/100), NaN]]\<rparr>"

section \<open>Facts about cells and loops\<close>

lemma length_fold_update:
  "length (fold (\<lambda>i w. w[i := f i]) is w) = length w"
  by (induction "is" arbitrary: w) auto

lemma nth_fold_update:
  "i < length w \<Longrightarrow>
   fold (\<lambda>i w. w[i := f i]) [a..<b] w ! i = (if a \<le> i \<and> i < b then f i else w ! i)"
proof (induction "b - a" arbitrary: a w)
  case 0
  then show ?case by auto
next
  case (Suc n)
  then have ab: "a < b" and n: "n = b - Suc a" by auto
  have "fold (\<lambda>i w. w[i := f i]) [a..<b] w = fold (\<lambda>i w. w[i := f i]) [Suc a..<b] (w[a := f a])"
    using ab by (simp add: upt_conv_Cons)
  moreover have "fold (\<lambda>i w. w[i := f i]) [Suc a..<b] (w[a := f a]) ! i
      = (if Suc a \<le> i \<and> i < b then f i else (w[a := f a]) ! i)"
    using Suc.hyps(1)[OF n, of "w[a := f a]"] Suc.prems by simp
  ultimately show ?case using Suc.prems ab by (cases "i = a") (auto simp: nth_list_update)
qed

lemma csum_map_Fin: "csum (map Fin rs) = Fin (sum_list rs)"
  by (induction rs) auto

lemma cadd_Fin_iff: "cadd x y = Fin s \<longleftrightarrow> (\<exists>a b. x = Fin a \<and> y = Fin b \<and> s = a + b)"
  by (cases x; cases y) auto

lemma csum_Fin_D: "csum xs = Fin s \<Longrightarrow> \<exists>rs. xs = map Fin rs \<and> s = sum_list rs"
proof (induction xs arbitrary: s)
  case Nil
  then show ?case by simp
next
  case (Cons x xs)
  then obtain a b where x: "x = Fin a" and b: "csum xs = Fin b" and s: "s = a + b"
    by (auto simp: cadd_Fin_iff)
  from Cons.IH[OF b] obtain rs where "xs = map Fin rs" "b = sum_list rs" by blast
  then have "x # xs = map Fin (a # rs) \<and> s = sum_list (a # rs)" using x s by simp
  then show ?case by (rule exI[of _ "a # rs"])
qed

lemma cadd_PInf_D: "cadd x y = PInf \<Longrightarrow> x = PInf \<or> y = PInf"
  by (cases x; cases y) auto

lemma csum_PInf_D: "csum xs = PInf \<Longrightarrow> PInf \<in> set xs"
  by (induction xs) (auto dest: cadd_PInf_D)

lemma cgt0_cases: "cgt0 x \<Longrightarrow> (\<exists>s. x = Fin s \<and> 0 < s) \<or> x = PInf"
  by (cases x) auto

lemma vals_max_ic:
  "i < length (vals ic_df) \<Longrightarrow>
   vals (calc_max_ic_weights pinv ic_df window neg) ! i =
     (if window \<le> i
      then norm_w neg (raw_w pinv (length (columns ic_df)) (iloc (i - window) i (vals ic_df)))
      else replicate (length (columns ic_df)) NaN)"
  by (simp add: calc_max_ic_weights_def Let_def nth_fold_update)

lemma length_vals_max_ic:
  "length (vals (calc_max_ic_weights pinv ic_df window neg)) = length (vals ic_df)"
  by (simp add: calc_max_ic_weights_def Let_def length_fold_update)

lemma fold_skip_update:
  "fold (\<lambda>i w. if i < k then w else w[i := f i]) [a..<b] w
   = fold (\<lambda>i w. w[i := f i]) [max a k..<b] w"
proof (induction "b - a" arbitrary: a w)
  case 0
  then show ?case by simp
next
  case (Suc n)
  then have ab: "a < b" and n: "n = b - Suc a" by auto
  show ?case
  proof (cases "a < k")
    case True
    then have "max a k = max (Suc a) k" by auto
    then show ?thesis using Suc.hyps(1)[OF n, of w] ab True by (simp add: upt_conv_Cons)
  next
    case False
    then have m: "max a k = a" "max (Suc a) k = Suc a" by auto
    show ?thesis using Suc.hyps(1)[OF n, of "w[a := f a]"] ab False m by (simp add: upt_conv_Cons)
  qed
qed

lemma vals_max_ir:
  "i < length (vals ic_df) \<Longrightarrow>
   vals (calc_max_ir_weights minimize ic_df window neg) ! i =
     (if window \<le> i
      then optimize_window minimize (length (columns ic_df)) (iloc (i - window) i (vals ic_df)) False
      else replicate (length (columns ic_df)) NaN)"
  by (simp add: calc_max_ir_weights_def Let_def fold_skip_update nth_fold_update)

lemma cmax0_shape: "cmax0 x = NaN \<or> cmax0 x = PInf \<or> (\<exists>a. cmax0 x = Fin a \<and> 0 \<le> a)"
  by (cases x) auto

lemma norm_w_sum:
  assumes ne: "norm_w neg raw \<noteq> []" and df: "\<forall>x\<in>set (norm_w neg raw). \<not> isna x"
  shows "csum (norm_w neg raw) = Fin 1"
proof -
  define r where "r = (if \<not> neg then map cmax0 raw else raw)"
  have nw: "norm_w neg raw =
      (if cgt0 (csum r) then map (\<lambda>x. cdiv x (csum r)) r
       else map (\<lambda>x. cdiv (Fin 1) (Fin (real (length r)))) r)"
    by (simp add: norm_w_def r_def Let_def)
  have rne: "r \<noteq> []" using ne nw by (auto split: if_splits)
  show ?thesis
  proof (cases "cgt0 (csum r)")
    case True
    then consider s where "csum r = Fin s" "0 < s" | "csum r = PInf"
      using cgt0_cases by blast
    then show ?thesis
    proof cases
      case 1
      then obtain rs where rs: "r = map Fin rs" "s = sum_list rs"
        using csum_Fin_D by blast
      have "norm_w neg raw = map Fin (map (\<lambda>a. a / s) rs)"
        using nw True 1 rs by simp
      then have "csum (norm_w neg raw) = Fin (sum_list (map (\<lambda>a. a / s) rs))"
        by (simp only: csum_map_Fin)
      also have "sum_list (map (\<lambda>a. a / s) rs) = sum_list rs / s"
        by (induction rs) (auto simp: add_divide_distrib)
      finally show ?thesis using 1 rs by simp
    next
      case 2
      then have "PInf \<in> set r" by (rule csum_PInf_D)
      then have "cdiv PInf PInf \<in> set (norm_w neg raw)" using nw True 2 by force
      then show ?thesis using df by auto
    qed
  next
    case False
    have n0: "0 < length r" using rne by simp
    have "norm_w neg raw = map Fin (replicate (length r) (1 / real (length r)))"
      using nw False n0 by (simp add: map_replicate_const)
    then have "csum (norm_w neg raw) = Fin (sum_list (replicate (length r) (1 / real (length r))))"
      by (simp only: csum_map_Fin)
    then show ?thesis using n0 by (simp add: sum_list_replicate)
  qed
qed

lemma norm_w_nonneg:
  assumes x: "x \<in> set (norm_w False raw)" and d: "\<not> isna x"
  shows "\<exists>a. x = Fin a \<and> 0 \<le> a"
proof -
  define r where "r = map cmax0 raw"
  have nw: "norm_w False raw =
      (if cgt0 (csum r) then map (\<lambda>x. cdiv x (csum r)) r
       else map (\<lambda>x. cdiv (Fin 1) (Fin (real (length r)))) r)"
    by (simp add: norm_w_def r_def Let_def)
  show ?thesis
  proof (cases "cgt0 (csum r)")
    case True
    then obtain y where y: "y \<in> set r" "x = cdiv y (csum r)" using x nw by auto
    then obtain z where z: "y = cmax0 z" by (auto simp: r_def)
    from True consider s where "csum r = Fin s" "0 < s" | "csum r = PInf"
      using cgt0_cases by blast
    then show ?thesis
    proof cases
      case 1
      then obtain rs where rs: "r = map Fin rs" using csum_Fin_D by blast
      then obtain a where a: "y = Fin a" using y by auto
      then have "0 \<le> a" using z cmax0_shape[of z] by auto
      then show ?thesis using y a 1 by simp
    next
      case 2
      then show ?thesis using y z d cmax0_shape[of z] by auto
    qed
  next
    case False
    then have "x = cdiv (Fin 1) (Fin (real (length r)))" and "r \<noteq> []" using x nw by auto
    then show ?thesis by simp
  qed
qed

lemmas ev = cov_matrix_def cov_def means_def mean_def column_def iloc_def csub_def Let_def
  upt_rec raw_w_def norm_w_def matvec_def dot_def pinv_real_def inf_signed_def

section \<open>The rolling estimators use the prior window only\<close>

text \<open>
  Claim C7: for every IC matrix and window, both estimators leave each row at an index
  below \<open>window\<close> undefined (NaN in every column, not zero), and the row at index \<open>i\<close>
  is computed from the rows \<open>[i - window, i)\<close> only: two IC matrices with the same
  columns that agree on those rows get the same row \<open>i\<close>, whatever row \<open>i\<close> and the
  later rows hold.
\<close>

theorem rolling_weights_use_prior_window_only:
  assumes "i < length (vals ic_df)"
  shows "(i < window \<longrightarrow>
            vals (calc_max_ic_weights pinv ic_df window neg_weight) ! i
              = replicate (length (columns ic_df)) NaN
          \<and> vals (calc_max_ir_weights minimize ic_df window neg_weight) ! i
              = replicate (length (columns ic_df)) NaN)
       \<and> (\<forall>ic'. window \<le> i \<and> i < length (vals ic') \<and> columns ic' = columns ic_df
                \<and> iloc (i - window) i (vals ic') = iloc (i - window) i (vals ic_df)
            \<longrightarrow> vals (calc_max_ic_weights pinv ic' window neg_weight) ! i
                  = vals (calc_max_ic_weights pinv ic_df window neg_weight) ! i
              \<and> vals (calc_max_ir_weights minimize ic' window neg_weight) ! i
                  = vals (calc_max_ir_weights minimize ic_df window neg_weight) ! i)"
  using assms by (simp add: vals_max_ic vals_max_ir)

theorem rolling_weights_use_prior_window_only_witness:
  "vals (calc_max_ic_weights pinv_2x2 ic_collinear 2 False) ! 1 = [NaN, NaN]
   \<and> vals (calc_max_ir_weights minimize_start ic_collinear 2 False) ! 1 = [NaN, NaN]
   \<and> vals ic_changed_later ! 2 \<noteq> vals ic_collinear ! 2
   \<and> vals (calc_max_ic_weights pinv_2x2 ic_changed_later 2 False) ! 2
       = vals (calc_max_ic_weights pinv_2x2 ic_collinear 2 False) ! 2
   \<and> vals (calc_max_ir_weights minimize_start ic_changed_later 2 False) ! 2
       = vals (calc_max_ir_weights minimize_start ic_collinear 2 False) ! 2"
proof -
  have len: "1 < length (vals ic_collinear)" "2 < length (vals ic_collinear)"
    "2 < length (vals ic_changed_later)"
    by (simp_all add: ic_collinear_def ic_changed_later_def)
  have same: "columns ic_changed_later = columns ic_collinear"
    "iloc (2 - 2) 2 (vals ic_changed_later) = iloc (2 - 2) 2 (vals ic_collinear)"
    by (simp_all add: ic_collinear_def ic_changed_later_def iloc_def)
  have diff: "vals ic_changed_later ! 2 \<noteq> vals ic_collinear ! 2"
    by (simp add: ic_collinear_def ic_changed_later_def)
  have cols: "replicate (length (columns ic_collinear)) NaN = [NaN, NaN]"
    by (simp add: ic_collinear_def)
  have a: "vals (calc_max_ic_weights pinv_2x2 ic_collinear 2 False) ! 1 = [NaN, NaN]
   \<and> vals (calc_max_ir_weights minimize_start ic_collinear 2 False) ! 1 = [NaN, NaN]"
    using rolling_weights_use_prior_window_only [OF len(1), of 2 pinv_2x2 False minimize_start]
    by (simp only: cols)
  have b: "vals (calc_max_ic_weights pinv_2x2 ic_changed_later 2 False) ! 2
       = vals (calc_max_ic_weights pinv_2x2 ic_collinear 2 False) ! 2
   \<and> vals (calc_max_ir_weights minimize_start ic_changed_later 2 False) ! 2
       = vals (calc_max_ir_weights minimize_start ic_collinear 2 False) ! 2"
    using rolling_weights_use_prior_window_only [OF len(2), of 2 pinv_2x2 False minimize_start]
      len(3) same by blast
  show ?thesis using a b diff by blast
qed

section \<open>A failed solve and a zero denominator in the maximum-IR estimator\<close>

text \<open>
  Claim C8: at every date where the solver does not report success, the weight row of
  \<open>calc_max_ir_weights\<close> is NaN in every column; and where the IC-volatility
  denominator of the objective is exactly zero, the objective divides by \<open>1e6\<close>
  instead: with a finite numerator \<open>a\<close> its value is the finite \<open>- a / 1e6\<close>.
\<close>

theorem max_ir_failed_solve_gives_nan_row_and_guarded_objective:
  "(window \<le> i \<and> i < length (vals ic_df)
      \<and> \<not> fst (solve_window minimize (length (columns ic_df))
                  (iloc (i - window) i (vals ic_df)) False)
     \<longrightarrow> vals (calc_max_ir_weights minimize ic_df window neg_weight) ! i
           = replicate (length (columns ic_df)) NaN)
   \<and> (csqrt (dot w (matvec sigma w)) = Fin 0 \<and> dot w bar_ic = Fin a
     \<longrightarrow> neg_ic_ir bar_ic sigma w = Fin (- a / 1000000))"
  by (auto simp: vals_max_ir optimize_window_def neg_ic_ir_def Let_def split: prod.splits)

theorem max_ir_failed_solve_gives_nan_row_and_guarded_objective_witness:
  "vals (calc_max_ir_weights minimize_fails ic_collinear 2 False) ! 2 = [NaN, NaN]
   \<and> neg_ic_ir [Fin (1/10)] [[Fin 0]] [Fin 1] = Fin (- (1/10) / 1000000)"
proof -
  have h1: "2 \<le> (2::nat) \<and> 2 < length (vals ic_collinear)
      \<and> \<not> fst (solve_window minimize_fails (length (columns ic_collinear))
                  (iloc (2 - 2) 2 (vals ic_collinear)) False)"
    by (simp add: ic_collinear_def solve_window_def minimize_fails_def Let_def)
  have h2: "csqrt (dot [Fin 1] (matvec [[Fin 0]] [Fin 1])) = Fin 0
      \<and> dot [Fin 1] [Fin (1/10)] = Fin (1/10)"
    by (simp add: dot_def matvec_def)
  have cols: "replicate (length (columns ic_collinear)) NaN = [NaN, NaN]"
    by (simp add: ic_collinear_def)
  have a: "vals (calc_max_ir_weights minimize_fails ic_collinear 2 False) ! 2 = [NaN, NaN]"
    using max_ir_failed_solve_gives_nan_row_and_guarded_objective
      [of 2 2 ic_collinear minimize_fails False] h1 cols by metis
  have b: "neg_ic_ir [Fin (1/10)] [[Fin 0]] [Fin 1] = Fin (- (1/10) / 1000000)"
    using max_ir_failed_solve_gives_nan_row_and_guarded_objective
      [of _ _ _ _ _ "[Fin 1]" "[[Fin 0]]" "[Fin (1/10)]" "1/10"] h2 by blast
  show ?thesis using a b by blast
qed

section \<open>The stand-in pseudo-inverse is the Moore-Penrose inverse\<close>

text \<open>
  The four Penrose equations for \<open>pinv_real\<close>, entry by entry: \<open>M P M = M\<close>,
  \<open>P M P = P\<close>, and \<open>M P\<close> and \<open>P M\<close> are symmetric.
\<close>

lemma penrose_from_products:
  fixes a b c d p q r s :: real
  assumes "a*p + b*r = e" "a*q + b*s = f" "c*p + d*r = f" "c*q + d*s = g"
    and "p*a + q*c = h" "p*b + q*d = k" "r*a + s*c = k" "r*b + s*d = l"
    and "e*a + f*c = a" "e*b + f*d = b" "f*a + g*c = c" "f*b + g*d = d"
    and "h*p + k*r = p" "h*q + k*s = q" "k*p + l*r = r" "k*q + l*s = s"
  shows "(a*p + b*r)*a + (a*q + b*s)*c = a \<and> (a*p + b*r)*b + (a*q + b*s)*d = b
       \<and> (c*p + d*r)*a + (c*q + d*s)*c = c \<and> (c*p + d*r)*b + (c*q + d*s)*d = d
       \<and> (p*a + q*c)*p + (p*b + q*d)*r = p \<and> (p*a + q*c)*q + (p*b + q*d)*s = q
       \<and> (r*a + s*c)*p + (r*b + s*d)*r = r \<and> (r*a + s*c)*q + (r*b + s*d)*s = s
       \<and> a*q + b*s = c*p + d*r \<and> p*b + q*d = r*a + s*c"
  using assms by simp

lemma pinv_real_penrose:
  assumes "pinv_real a b c d = (p, q, r, s)"
  shows "(a*p + b*r)*a + (a*q + b*s)*c = a \<and> (a*p + b*r)*b + (a*q + b*s)*d = b
       \<and> (c*p + d*r)*a + (c*q + d*s)*c = c \<and> (c*p + d*r)*b + (c*q + d*s)*d = d
       \<and> (p*a + q*c)*p + (p*b + q*d)*r = p \<and> (p*a + q*c)*q + (p*b + q*d)*s = q
       \<and> (r*a + s*c)*p + (r*b + s*d)*r = r \<and> (r*a + s*c)*q + (r*b + s*d)*s = s
       \<and> a*q + b*s = c*p + d*r \<and> p*b + q*d = r*a + s*c"
proof (cases "a * d - b * c = 0")
  case False
  define D where "D = a*d - b*c"
  have D0: "D \<noteq> 0" using False by (simp add: D_def)
  have pq: "p = d / D" "q = - b / D" "r = - c / D" "s = a / D"
    using assms False by (simp_all add: pinv_real_def Let_def D_def)
  have one: "(a*d - b*c) / D = 1" using D0 by (simp add: D_def)
  have 1: "a*p + b*r = 1" "c*q + d*s = 1" "p*a + q*c = 1" "r*b + s*d = 1"
    using one by (simp_all add: pq diff_divide_distrib mult.commute)
  have 2: "a*q + b*s = 0" "c*p + d*r = 0" "p*b + q*d = 0" "r*a + s*c = 0"
    by (simp_all add: pq mult.commute)
  show ?thesis by (rule penrose_from_products[OF 1(1) 2(1) 2(2) 1(2) 1(3) 2(3) 2(4) 1(4)]) simp_all
next
  case det: True
  show ?thesis
  proof (cases "a*a + b*b + c*c + d*d = 0")
    case True
    have "a*a = 0 \<and> b*b = 0 \<and> c*c = 0 \<and> d*d = 0"
      using True zero_le_square[of a] zero_le_square[of b] zero_le_square[of c] zero_le_square[of d]
      by linarith
    then have z: "a = 0 \<and> b = 0 \<and> c = 0 \<and> d = 0" by simp
    then have "p = 0 \<and> q = 0 \<and> r = 0 \<and> s = 0" using assms by (simp add: pinv_real_def Let_def)
    then show ?thesis using z by simp
  next
    case False
    define n where "n = a*a + b*b + c*c + d*d"
    have n0: "n \<noteq> 0" using False by (simp add: n_def)
    have pq: "p = a / n" "q = c / n" "r = b / n" "s = d / n"
      using assms det False by (simp_all add: pinv_real_def Let_def n_def)
    have ad: "a * d = b * c" using det by simp
    have m: "a*p + b*r = (a*a + b*b) / n" "a*q + b*s = (a*c + b*d) / n"
      "c*p + d*r = (a*c + b*d) / n" "c*q + d*s = (c*c + d*d) / n"
      "p*a + q*c = (a*a + c*c) / n" "p*b + q*d = (a*b + c*d) / n"
      "r*a + s*c = (a*b + c*d) / n" "r*b + s*d = (b*b + d*d) / n"
      by (simp_all add: pq add_divide_distrib mult.commute)
    have k1: "(a*a + b*b)*a + (a*c + b*d)*c = n * a" "(a*a + b*b)*b + (a*c + b*d)*d = n * b"
      "(a*c + b*d)*a + (c*c + d*d)*c = n * c" "(a*c + b*d)*b + (c*c + d*d)*d = n * d"
      "(a*a + c*c)*a + (a*b + c*d)*b = n * a" "(a*a + c*c)*c + (a*b + c*d)*d = n * c"
      "(a*b + c*d)*a + (b*b + d*d)*b = n * b" "(a*b + c*d)*c + (b*b + d*d)*d = n * d"
      unfolding n_def using ad by algebra+
    have dv: "\<And>x y u v w. x * u + y * v = n * w \<Longrightarrow> (x / n) * u + (y / n) * v = w"
      using n0 by (simp add: field_simps)
    have dv2: "\<And>x y u v w. x * u + y * v = n * w \<Longrightarrow> (x / n) * (u / n) + (y / n) * (v / n) = w / n"
      using n0 by (simp add: field_simps)
    show ?thesis
      by (rule penrose_from_products[OF m(1) m(2) m(3) m(4) m(5) m(6) m(7) m(8)])
         (simp_all only: pq dv[OF k1(1)] dv[OF k1(2)] dv[OF k1(3)] dv[OF k1(4)]
            dv2[OF k1(5)] dv2[OF k1(6)] dv2[OF k1(7)] dv2[OF k1(8)])
  qed
qed

section \<open>A degenerate covariance in the maximum-IC estimator\<close>

text \<open>
  Claim C5, as stated, fails: the first two rows of \<open>ic_collinear\<close> are collinear,
  their covariance matrix has determinant zero, and yet the raw weight vector at the
  third date is the pseudo-inverse solution \<open>[6, 12]\<close>, not all ones; the weights are
  \<open>[1/3, 2/3]\<close>, not uniform.
\<close>

theorem collinear_window_no_uniform_fallback_counterexample:
  "cov_matrix 2 (iloc 0 2 (vals ic_collinear))
     = [[Fin (1/200), Fin (1/100)], [Fin (1/100), Fin (1/50)]]
   \<and> (1/200) * (1/50) - (1/100) * (1/100) = (0::real)
   \<and> raw_w pinv_2x2 2 (iloc (2 - 2) 2 (vals ic_collinear)) = [Fin 6, Fin 12]
   \<and> raw_w pinv_2x2 2 (iloc (2 - 2) 2 (vals ic_collinear)) \<noteq> [Fin 1, Fin 1]
   \<and> vals (calc_max_ic_weights pinv_2x2 ic_collinear 2 False) ! 2 = [Fin (1/3), Fin (2/3)]"
  by (simp add: vals_max_ic ev ic_collinear_def)

text \<open>
  Claim C5, amended: a degenerate covariance matrix does not make the estimator raise,
  and it does not trigger the fallback either.  At a date \<open>i \<ge> window\<close> the weight row
  is the clipped and normalised pseudo-inverse solution whenever \<open>pinv\<close> returns; the
  all-ones raw vector is used exactly when \<open>pinv\<close> raises \<open>LinAlgError\<close>, and the row
  is then uniform, \<open>1/N\<close> in every column.
\<close>

theorem max_ic_uniform_fallback_only_when_pinv_raises:
  assumes "window \<le> i" and "i < length (vals ic_df)"
    and "N = length (columns ic_df)" and "W = iloc (i - window) i (vals ic_df)"
    and "row = vals (calc_max_ic_weights pinv ic_df window neg_weight) ! i"
  shows "(pinv (cov_matrix N W) = None \<longrightarrow> row = replicate N (Fin (1 / real N)))
       \<and> (\<forall>P. pinv (cov_matrix N W) = Some P \<longrightarrow> row = norm_w neg_weight (matvec P (means N W)))"
proof -
  have row: "row = norm_w neg_weight (raw_w pinv N W)"
    using assms by (simp add: vals_max_ic)
  have ones: "csum (replicate N (Fin 1)) = Fin (real N)"
    by (induction N) (auto simp: add.commute)
  have "norm_w neg_weight (replicate N (Fin 1)) = replicate N (Fin (1 / real N))"
    by (cases "N = 0") (simp_all add: norm_w_def ones map_replicate_const)
  then show ?thesis using row by (simp add: raw_w_def means_def)
qed

theorem max_ic_uniform_fallback_only_when_pinv_raises_witness:
  "pinv_2x2 (cov_matrix 2 (iloc (1 - 1) 1 (vals ic_collinear))) = None
   \<and> vals (calc_max_ic_weights pinv_2x2 ic_collinear 1 False) ! 1 = [Fin (1/2), Fin (1/2)]
   \<and> pinv_2x2 (cov_matrix 2 (iloc (2 - 2) 2 (vals ic_collinear)))
       = Some [[Fin 8, Fin 16], [Fin 16, Fin 32]]
   \<and> vals (calc_max_ic_weights pinv_2x2 ic_collinear 2 False) ! 2
       = norm_w False (matvec [[Fin 8, Fin 16], [Fin 16, Fin 32]]
                         (means 2 (iloc (2 - 2) 2 (vals ic_collinear))))"
proof -
  have l: "1 < length (vals ic_collinear)" "2 < length (vals ic_collinear)"
    and n: "2 = length (columns ic_collinear)"
    by (simp_all add: ic_collinear_def)
  have p1: "pinv_2x2 (cov_matrix 2 (iloc (1 - 1) 1 (vals ic_collinear))) = None"
    by (simp add: ev ic_collinear_def)
  have p2: "pinv_2x2 (cov_matrix 2 (iloc (2 - 2) 2 (vals ic_collinear)))
       = Some [[Fin 8, Fin 16], [Fin 16, Fin 32]]"
    by (simp add: ev ic_collinear_def)
  have a: "vals (calc_max_ic_weights pinv_2x2 ic_collinear 1 False) ! 1 = replicate 2 (Fin (1 / real 2))"
    using max_ic_uniform_fallback_only_when_pinv_raises
      [OF order_refl l(1) n refl refl, of pinv_2x2 False] p1 by blast
  have b: "vals (calc_max_ic_weights pinv_2x2 ic_collinear 2 False) ! 2
       = norm_w False (matvec [[Fin 8, Fin 16], [Fin 16, Fin 32]]
                         (means 2 (iloc (2 - 2) 2 (vals ic_collinear))))"
    using max_ic_uniform_fallback_only_when_pinv_raises
      [OF order_refl l(2) n refl refl, of pinv_2x2 False] p2 by blast
  have "replicate 2 (Fin (1 / real 2)) = [Fin (1/2), Fin (1/2)]"
    by (simp add: numeral_2_eq_2)
  then show ?thesis using a b p1 p2 by simp
qed

section \<open>Facts about the resampler\<close>

lemma groupby_fst: "map fst (groupby keys rs) = sort (remdups keys)"
  by (simp add: groupby_def comp_def)

lemma groupby_snd_nth:
  "p < length (sort (remdups keys)) \<Longrightarrow>
   snd (groupby keys rs ! p)
     = map snd (filter (\<lambda>(k', r). k' = sort (remdups keys) ! p) (zip keys rs))"
  by (simp add: groupby_def)

lemma strict_sorted_keys: "sorted_wrt (<) (sort (remdups (keys :: nat list)))"
  by (simp add: strict_sorted_iff)

lemma filter_zip_map_key:
  "map snd (filter (\<lambda>(k', r). k' = k) (zip (map f ds) rs))
   = map snd (filter (\<lambda>(d, r). f d = k) (zip ds rs))"
proof (induction ds arbitrary: rs)
  case Nil
  then show ?case by simp
next
  case (Cons d ds)
  then show ?case by (cases rs) auto
qed

lemma key_group_nonempty:
  assumes "k \<in> set (map f ds)" and "length rs = length ds"
  shows "filter (\<lambda>(d, r). f d = k) (zip ds rs) \<noteq> []"
proof -
  from assms(1) obtain i where i: "i < length ds" "f (ds ! i) = k"
    by (auto simp: in_set_conv_nth)
  then have "(ds ! i, rs ! i) \<in> set (zip ds rs)"
    using assms(2) by (auto simp: set_zip)
  then have "(ds ! i, rs ! i) \<in> set (filter (\<lambda>(d, r). f d = k) (zip ds rs))"
    using i by simp
  then show ?thesis by (metis empty_iff empty_set)
qed

lemma cprod_growth:
  "list_all real_or_nan xs \<Longrightarrow>
   cprod (filter (\<lambda>x. \<not> isna x) (map (\<lambda>x. cadd x (Fin 1)) xs)) = Fin (prod_list (map growth xs))"
proof (induction xs)
  case Nil
  then show ?case by simp
next
  case (Cons x xs)
  then show ?case by (cases x) (auto simp: add.commute)
qed

lemma cum_rtn_real_or_nan:
  assumes "list_all real_or_nan xs"
  shows "cum_rtn xs = (if \<forall>x\<in>set xs. x = NaN then NaN else Fin (prod_list (map growth xs) - 1))"
proof -
  have "list_all isna xs \<longleftrightarrow> (\<forall>x\<in>set xs. x = NaN)"
    by (auto simp: list_all_iff elim: isna.elims)
  then show ?thesis using cprod_growth[OF assms] by (simp add: cum_rtn_def csub_def)
qed

lemma zip_resample:
  "zip (index (dropna_all f)) (vals (dropna_all f))
   = filter (\<lambda>(d, r). \<not> list_all isna r) (zip (index f) (vals f))"
  by (simp add: dropna_all_def Let_def zip_map_fst_snd)

lemma shift_up_nth:
  assumes "p < length vs" and "\<not> list_all isna (shift_up N vs ! p)"
  shows "Suc p < length vs \<and> shift_up N vs ! p = vs ! Suc p"
proof -
  have ne: "vs \<noteq> []" using assms(1) by auto
  have l: "length (tl vs) = length vs - 1" by simp
  show ?thesis
  proof (cases "Suc p < length vs")
    case True
    then have "p < length (tl vs)" by simp
    then have "shift_up N vs ! p = tl vs ! p" using ne by (simp add: shift_up_def nth_append)
    then show ?thesis using True by (simp add: nth_tl)
  next
    case False
    then have "p = length (tl vs)" using assms(1) by simp
    then have "shift_up N vs ! p = replicate N NaN" using ne by (simp add: shift_up_def nth_append)
    then have "list_all isna (shift_up N vs ! p)" by (simp add: list_all_iff)
    then show ?thesis using assms(2) by simp
  qed
qed

lemma length_shift_up: "length (shift_up N vs) = length vs"
  by (simp add: shift_up_def)

lemma aligned_key:
  assumes "sorted sched" and "d \<in> set sched"
  shows "(sched @ [m]) ! searchsorted (sched @ [m]) d = d"
proof -
  define n where "n = length (takeWhile (\<lambda>s. s < d) sched)"
  have tw: "takeWhile (\<lambda>s. s < d) (sched @ [m]) = takeWhile (\<lambda>s. s < d) sched"
    using assms(2) by (intro takeWhile_append1[of d]) auto
  have "takeWhile (\<lambda>s. s < d) sched \<noteq> sched"
    using assms(2) by (auto simp: takeWhile_eq_all_conv)
  then have n: "n < length sched"
    unfolding n_def using length_takeWhile_le[of "\<lambda>s. s < d" sched]
    by (metis le_neq_implies_less takeWhile_eq_take take_all_iff order_refl)
  have ge: "d \<le> sched ! n"
    using nth_length_takeWhile[of "\<lambda>s. s < d" sched] n by (simp add: n_def not_less)
  obtain i where i: "i < length sched" "sched ! i = d"
    using assms(2) by (auto simp: in_set_conv_nth)
  have "n \<le> i"
  proof (rule ccontr)
    assume "\<not> n \<le> i"
    then have "i < length (takeWhile (\<lambda>s. s < d) sched)" by (simp add: n_def)
    then have "sched ! i \<in> set (takeWhile (\<lambda>s. s < d) sched)"
      by (metis nth_mem takeWhile_nth)
    then have "sched ! i < d" by (auto dest: set_takeWhileD)
    then show False using i by simp
  qed
  then have "sched ! n \<le> d" using assms(1) i by (auto simp: sorted_iff_nth_mono)
  then have "sched ! n = d" using ge by simp
  then show ?thesis using n tw by (simp add: searchsorted_def n_def nth_append)
qed

lemma filter_key_distinct:
  "distinct ks \<Longrightarrow> i < length ks \<Longrightarrow> length rs = length ks \<Longrightarrow>
   filter (\<lambda>(k', r). k' = ks ! i) (zip ks rs) = [(ks ! i, rs ! i)]"
proof (induction ks arbitrary: rs i)
  case Nil
  then show ?case by simp
next
  case (Cons k ks)
  then obtain r rs' where rs: "rs = r # rs'" by (cases rs) auto
  show ?case
  proof (cases i)
    case 0
    have "filter (\<lambda>(k', r). k' = k) (zip ks rs') = []"
      using Cons.prems(1) by (auto simp: filter_empty_conv dest: set_zip_leftD)
    then show ?thesis using 0 rs by simp
  next
    case (Suc i')
    then have "ks ! i' \<noteq> k" using Cons.prems by auto
    then show ?thesis using Suc rs Cons.IH[of i' rs'] Cons.prems by auto
  qed
qed

lemma groupby_aligned:
  assumes "sorted_wrt (<) ks" and "length rs = length ks"
  shows "groupby ks rs = map (\<lambda>(k, r). (k, [r])) (zip ks rs)"
proof -
  have sd: "sorted ks" "distinct ks" using assms(1) by (simp_all add: strict_sorted_iff)
  then have s: "sort (remdups ks) = ks" by (simp add: sorted_sort_id)
  show ?thesis
  proof (rule nth_equalityI)
    show "length (groupby ks rs) = length (map (\<lambda>(k, r). (k, [r])) (zip ks rs))"
      using assms(2) by (simp add: groupby_def s)
  next
    fix i assume "i < length (groupby ks rs)"
    then have i: "i < length ks" by (simp add: groupby_def s)
    then show "groupby ks rs ! i = map (\<lambda>(k, r). (k, [r])) (zip ks rs) ! i"
      using filter_key_distinct[OF sd(2) i assms(2)] assms(2) by (simp add: groupby_def s)
  qed
qed

lemma cum_rtn_single: "cum_rtn [x] = x"
  by (cases x) (simp_all add: cum_rtn_def csub_def inf_signed_def)

lemma cum_rtns_single: "length r = N \<Longrightarrow> cum_rtns N [r] = r"
  by (auto simp: cum_rtns_def column_def cum_rtn_single intro: nth_equalityI)

lemma resample_daily_scenario:
  "resample_returns [10, 20] daily_scenario
   = \<lparr>index = [10], columns = [0],
      vals = [[Fin ((101/100) * (102/100) * (100/100) * (101/100) - 1)]]\<rparr>"
proof -
  have k: "map (\<lambda>d. ([10, 20] @ [Max (set (index daily_scenario))])
                     ! searchsorted ([10, 20] @ [Max (set (index daily_scenario))]) d)
               (index daily_scenario) = [10, 20, 20, 20, 20]"
    by (simp add: searchsorted_def daily_scenario_def)
  have g: "groupby [10, 20, 20, 20, 20] (vals daily_scenario)
      = [(10, [[Fin (1/20)]]), (20, [[Fin (1/100)], [Fin (1/50)], [NaN], [Fin (1/100)]])]"
    by (simp add: groupby_def daily_scenario_def)
  show ?thesis
    unfolding resample_returns_def Let_def k
    by (simp only: g)
       (simp add: daily_scenario_def dropna_all_def shift_up_def cum_rtns_def cum_rtn_def
          column_def csub_def)
qed

lemma interval_daily_scenario:
  "interval_rows [10, 20] daily_scenario 20 = [[Fin (1/100)], [Fin (1/50)], [NaN], [Fin (1/100)]]"
  by (simp add: interval_rows_def searchsorted_def daily_scenario_def)

lemma resample_three_periods:
  "resample_returns [10, 20, 30] daily_three_periods
   = \<lparr>index = [10, 20], columns = [0], vals = [[Fin (11/25)], [Fin (69/100)]]\<rparr>"
proof -
  have k: "map (\<lambda>d. ([10, 20, 30] @ [Max (set (index daily_three_periods))])
                     ! searchsorted ([10, 20, 30] @ [Max (set (index daily_three_periods))]) d)
               (index daily_three_periods) = [10, 10, 20, 20, 30, 30]"
    by (simp add: searchsorted_def daily_three_periods_def)
  have g: "groupby [10, 10, 20, 20, 30, 30] (vals daily_three_periods)
      = [(10, [[Fin (1/10)], [Fin (1/10)]]), (20, [[Fin (1/5)], [Fin (1/5)]]),
         (30, [[Fin (3/10)], [Fin (3/10)]])]"
    by (simp add: groupby_def daily_three_periods_def)
  show ?thesis
    unfolding resample_returns_def Let_def k
    by (simp only: g)
       (simp add: daily_three_periods_def dropna_all_def shift_up_def cum_rtns_def cum_rtn_def
          column_def csub_def)
qed

lemma resample_period_frame:
  "resample_returns [10, 20, 30]
     \<lparr>index = [10, 20], columns = [0], vals = [[Fin (11/25)], [Fin (69/100)]]\<rparr>
   = \<lparr>index = [10], columns = [0], vals = [[Fin (69/100)]]\<rparr>"
proof -
  have k: "map (\<lambda>d. ([10, 20, 30] @ [Max (set [10, 20])])
                     ! searchsorted ([10, 20, 30] @ [Max (set [10, 20])]) d) [10, 20]
           = [10, 20::nat]"
    by (simp add: searchsorted_def)
  have g: "groupby [10, 20] [[Fin (11/25)], [Fin (69/100)]]
      = [(10, [[Fin (11/25)]]), (20, [[Fin (69/100)]])]"
    by (simp add: groupby_def)
  show ?thesis
    unfolding resample_returns_def Let_def frame.simps k
    by (simp only: g)
       (simp add: dropna_all_def shift_up_def cum_rtns_def cum_rtn_def column_def csub_def)
qed

section \<open>Compounding with missing days\<close>

text \<open>
  The key of a daily date is the first schedule date that is not before it, or the
  last daily date when the schedule has none; so the interval of a key holds the days
  after the previous schedule date, up to and including the key.
\<close>

lemma zip_shift_up:
  assumes "length vs = length ks" and "ks \<noteq> []"
  shows "zip ks (shift_up N vs)
         = map (\<lambda>p. (ks ! p, vs ! Suc p)) [0..<length ks - 1] @ [(last ks, replicate N NaN)]"
proof (rule nth_equalityI)
  show "length (zip ks (shift_up N vs))
        = length (map (\<lambda>p. (ks ! p, vs ! Suc p)) [0..<length ks - 1] @ [(last ks, replicate N NaN)])"
    using assms by (simp add: length_shift_up)
next
  fix i assume "i < length (zip ks (shift_up N vs))"
  then have i: "i < length ks" by simp
  have ne: "vs \<noteq> []" using assms by auto
  show "zip ks (shift_up N vs) ! i
        = (map (\<lambda>p. (ks ! p, vs ! Suc p)) [0..<length ks - 1] @ [(last ks, replicate N NaN)]) ! i"
  proof (cases "i < length ks - 1")
    case True
    then have "shift_up N vs ! i = vs ! Suc i"
      using ne assms(1) by (simp add: shift_up_def nth_append nth_tl)
    then show ?thesis using True i assms(1) by (simp add: length_shift_up nth_append)
  next
    case False
    then have e: "i = length ks - 1" using i by simp
    then have "shift_up N vs ! i = replicate N NaN"
      using ne assms(1) by (simp add: shift_up_def nth_append)
    then show ?thesis using e i assms by (simp add: length_shift_up nth_append last_conv_nth)
  qed
qed

lemma cum_rtns_period_cell:
  assumes "\<And>r. r \<in> set g \<Longrightarrow> length r = N \<and> list_all real_or_nan r"
  shows "cum_rtns N g = map (period_cell g) [0..<N]"
proof -
  have "cum_rtn (column g j) = period_cell g j" if j: "j < N" for j
  proof -
    have c: "list_all real_or_nan (column g j)"
      using assms j by (auto simp: column_def list_all_iff)
    have "(\<forall>x\<in>set (column g j). x = NaN) \<longleftrightarrow> list_all (\<lambda>r. isna (r ! j)) g"
      by (auto simp: column_def list_all_iff elim: isna.elims)
    then show ?thesis
      using cum_rtn_real_or_nan[OF c] by (simp add: period_cell_def column_def comp_def)
  qed
  then show ?thesis by (simp add: cum_rtns_def)
qed

lemma key_first_date_not_before:
  assumes "sorted sched" and "d \<le> m"
  shows "d \<le> (sched @ [m]) ! searchsorted (sched @ [m]) d
       \<and> (\<forall>s\<in>set sched. d \<le> s \<longrightarrow> (sched @ [m]) ! searchsorted (sched @ [m]) d \<le> s)
       \<and> ((sched @ [m]) ! searchsorted (sched @ [m]) d \<in> set sched
          \<or> (sched @ [m]) ! searchsorted (sched @ [m]) d = m \<and> (\<forall>s\<in>set sched. s < d))"
proof (cases "\<forall>s\<in>set sched. s < d")
  case True
  then have "takeWhile (\<lambda>s. s < d) (sched @ [m]) = sched"
    using assms(2) by (simp add: takeWhile_append2)
  then have "(sched @ [m]) ! searchsorted (sched @ [m]) d = m"
    by (simp add: searchsorted_def)
  then show ?thesis using True assms(2) by auto
next
  case False
  then obtain x where x: "x \<in> set sched" "\<not> x < d" by auto
  define n where "n = length (takeWhile (\<lambda>s. s < d) sched)"
  have tw: "takeWhile (\<lambda>s. s < d) (sched @ [m]) = takeWhile (\<lambda>s. s < d) sched"
    using x by (intro takeWhile_append1[of x]) auto
  have "takeWhile (\<lambda>s. s < d) sched \<noteq> sched"
    using x by (auto simp: takeWhile_eq_all_conv)
  then have n: "n < length sched"
    unfolding n_def using length_takeWhile_le[of "\<lambda>s. s < d" sched]
    by (metis le_neq_implies_less takeWhile_eq_take take_all_iff order_refl)
  have k: "(sched @ [m]) ! searchsorted (sched @ [m]) d = sched ! n"
    using n tw by (simp add: searchsorted_def n_def nth_append)
  have ge: "d \<le> sched ! n"
    using nth_length_takeWhile[of "\<lambda>s. s < d" sched] n by (simp add: n_def not_less)
  have least: "sched ! n \<le> s" if s: "s \<in> set sched" "d \<le> s" for s
  proof -
    obtain i where i: "i < length sched" "sched ! i = s"
      using s(1) by (auto simp: in_set_conv_nth)
    have "n \<le> i"
    proof (rule ccontr)
      assume "\<not> n \<le> i"
      then have "i < length (takeWhile (\<lambda>s. s < d) sched)" by (simp add: n_def)
      then have "sched ! i \<in> set (takeWhile (\<lambda>s. s < d) sched)"
        by (metis nth_mem takeWhile_nth)
      then have "sched ! i < d" by (auto dest: set_takeWhileD)
      then show False using i s(2) by simp
    qed
    then show ?thesis using assms(1) i by (auto simp: sorted_iff_nth_mono)
  qed
  show ?thesis unfolding k using ge least n by auto
qed

lemma resample_two_stocks:
  "resample_returns [10, 20] daily_two_stocks
   = \<lparr>index = [10], columns = [0, 1],
      vals = [[Fin ((101/100) * (102/100) * (100/100) * (101/100) - 1), NaN]]\<rparr>"
proof -
  have k: "map (\<lambda>d. ([10, 20] @ [Max (set (index daily_two_stocks))])
                     ! searchsorted ([10, 20] @ [Max (set (index daily_two_stocks))]) d)
               (index daily_two_stocks) = [10, 20, 20, 20, 20]"
    by (simp add: searchsorted_def daily_two_stocks_def)
  have g: "groupby [10, 20, 20, 20, 20] (vals daily_two_stocks)
      = [(10, [[Fin (1/20), Fin (1/20)]]),
         (20, [[Fin (1/100), NaN], [Fin (1/50), NaN], [NaN, NaN], [Fin (1/100), NaN]])]"
    by (simp add: groupby_def daily_two_stocks_def)
  show ?thesis
    unfolding resample_returns_def Let_def k
    by (simp only: g)
       (simp add: daily_two_stocks_def dropna_all_def shift_up_def cum_rtns_def cum_rtn_def
          column_def csub_def upt_rec)
qed

lemma period_keys_two_stocks: "period_keys [10, 20] daily_two_stocks = [10, 20]"
  by (simp add: period_keys_def searchsorted_def daily_two_stocks_def)

lemma interval_two_stocks:
  "interval_rows [10, 20] daily_two_stocks 20
   = [[Fin (1/100), NaN], [Fin (1/50), NaN], [NaN, NaN], [Fin (1/100), NaN]]"
  by (simp add: interval_rows_def searchsorted_def daily_two_stocks_def)

text \<open>
  Claim C9: on a well-formed daily frame whose cells are real or missing,
  \<open>resample_returns\<close> is this and nothing else.  The keys increase strictly and each has
  a non-empty interval of daily rows.  For every key but the last there is a candidate
  row, labelled with that key, whose cell in column \<open>j\<close> is the period return of the
  interval of the next key: undefined only when every daily value of that column in
  that interval is undefined, and otherwise the product of the daily growth factors
  minus one, a missing day counting as growth \<open>1\<close> (zero return).  The result holds
  exactly the candidate rows that are defined in some column, in order; no defined
  cell is dropped.  On the days \<open>0.01, 0.02, NaN, 0.01\<close> the cell is
  \<open>(1.01)(1.02)(1.00)(1.01) - 1\<close>, not NaN, also next to a stock that is undefined on
  all four days.
\<close>

theorem resample_returns_cell_undefined_only_if_interval_all_undefined:
  assumes cells: "real_or_missing returns" and wf: "wf_frame returns"
  shows "sorted_wrt (<) (period_keys sched returns)
       \<and> (\<forall>k\<in>set (period_keys sched returns). interval_rows sched returns k \<noteq> [])
       \<and> length (index (resample_returns sched returns))
           = length (vals (resample_returns sched returns))
       \<and> zip (index (resample_returns sched returns)) (vals (resample_returns sched returns))
           = filter (\<lambda>(d, r). \<not> list_all isna r)
               (map (\<lambda>p. (period_keys sched returns ! p,
                          map (period_cell (interval_rows sched returns
                                              (period_keys sched returns ! Suc p)))
                              [0..<length (columns returns)]))
                    [0..<length (period_keys sched returns) - 1])"
proof -
  define dates where "dates = sched @ [Max (set (index returns))]"
  define keyf where "keyf = (\<lambda>d. dates ! searchsorted dates d)"
  define keys where "keys = map keyf (index returns)"
  define N where "N = length (columns returns)"
  define grouped where
    "grouped = map (\<lambda>(k, g). (k, cum_rtns N g)) (groupby keys (vals returns))"
  define ks where "ks = sort (remdups keys)"
  define vs where "vs = map snd grouped"
  have pk: "period_keys sched returns = ks"
    by (simp add: period_keys_def Let_def ks_def keys_def keyf_def dates_def)
  have res: "resample_returns sched returns
      = dropna_all \<lparr>index = map fst grouped, columns = columns returns, vals = shift_up N vs\<rparr>"
    by (simp add: resample_returns_def Let_def dates_def keyf_def keys_def N_def grouped_def vs_def)
  have fst_g: "map fst grouped = ks"
    using groupby_fst[of keys "vals returns"]
    by (simp add: grouped_def ks_def comp_def case_prod_unfold)
  have len: "length vs = length ks"
    by (simp add: vs_def grouped_def ks_def groupby_def)
  have srt: "sorted_wrt (<) ks" unfolding ks_def by (rule strict_sorted_keys)
  have grp: "snd (groupby keys (vals returns) ! p) = interval_rows sched returns (ks ! p)"
    if "p < length ks" for p
    using groupby_snd_nth[of p keys "vals returns"] that
    by (simp add: ks_def interval_rows_def Let_def keys_def keyf_def dates_def filter_zip_map_key)
  have nonempty: "interval_rows sched returns k \<noteq> []" if "k \<in> set ks" for k
  proof -
    have "k \<in> set (map keyf (index returns))" using that by (simp add: ks_def keys_def)
    then show ?thesis
      using key_group_nonempty[of k keyf "index returns" "vals returns"] wf
      by (simp add: interval_rows_def Let_def keyf_def dates_def wf_frame_def)
  qed
  have rows: "length r = N \<and> list_all real_or_nan r"
    if "r \<in> set (interval_rows sched returns k)" for r k
  proof -
    have "r \<in> set (vals returns)"
      using that by (auto simp: interval_rows_def Let_def dest: set_zip_rightD)
    then show ?thesis
      using wf cells by (auto simp: wf_frame_def real_or_missing_def list_all_iff N_def)
  qed
  have vsn: "vs ! p = map (period_cell (interval_rows sched returns (ks ! p))) [0..<N]"
    if "p < length ks" for p
  proof -
    have "vs ! p = cum_rtns N (snd (groupby keys (vals returns) ! p))"
      using that by (simp add: vs_def grouped_def ks_def groupby_def)
    then show ?thesis using grp[OF that] cum_rtns_period_cell[of _ N] rows by simp
  qed
  have eqlen: "length (index (resample_returns sched returns))
           = length (vals (resample_returns sched returns))"
    by (simp add: res dropna_all_def Let_def)
  have z: "zip (index (resample_returns sched returns)) (vals (resample_returns sched returns))
      = filter (\<lambda>(d, r). \<not> list_all isna r) (zip ks (shift_up N vs))"
    unfolding res zip_resample by (simp add: fst_g)
  have main: "filter (\<lambda>(d, r). \<not> list_all isna r) (zip ks (shift_up N vs))
      = filter (\<lambda>(d, r). \<not> list_all isna r)
          (map (\<lambda>p. (ks ! p, map (period_cell (interval_rows sched returns (ks ! Suc p))) [0..<N]))
               [0..<length ks - 1])"
  proof (cases "ks = []")
    case True
    then show ?thesis using len by (simp add: shift_up_def)
  next
    case False
    have m: "map (\<lambda>p. (ks ! p, vs ! Suc p)) [0..<length ks - 1]
        = map (\<lambda>p. (ks ! p, map (period_cell (interval_rows sched returns (ks ! Suc p))) [0..<N]))
              [0..<length ks - 1]"
      using vsn by (intro map_cong) auto
    have "list_all isna (replicate N NaN)" by (simp add: list_all_iff)
    then show ?thesis unfolding zip_shift_up[OF len False] m by simp
  qed
  show ?thesis using srt nonempty eqlen z main unfolding pk N_def by simp
qed

theorem resample_returns_cell_undefined_only_if_interval_all_undefined_witness:
  "real_or_missing daily_two_stocks \<and> wf_frame daily_two_stocks
   \<and> period_keys [10, 20] daily_two_stocks = [10, 20]
   \<and> interval_rows [10, 20] daily_two_stocks 20
       = [[Fin (1/100), NaN], [Fin (1/50), NaN], [NaN, NaN], [Fin (1/100), NaN]]
   \<and> zip (index (resample_returns [10, 20] daily_two_stocks))
          (vals (resample_returns [10, 20] daily_two_stocks))
       = [(10, [Fin ((101/100) * (102/100) * (100/100) * (101/100) - 1), NaN])]
   \<and> resample_returns [10, 20] daily_scenario
       = \<lparr>index = [10], columns = [0],
          vals = [[Fin ((101/100) * (102/100) * (100/100) * (101/100) - 1)]]\<rparr>"
proof -
  have c: "real_or_missing daily_two_stocks" and w: "wf_frame daily_two_stocks"
    by (simp_all add: real_or_missing_def wf_frame_def daily_two_stocks_def)
  have n: "length (columns daily_two_stocks) = 2" by (simp add: daily_two_stocks_def)
  have p: "map (period_cell [[Fin (1/100), NaN], [Fin (1/50), NaN], [NaN, NaN], [Fin (1/100), NaN]])
             [0..<2]
      = [Fin ((101/100) * (102/100) * (100/100) * (101/100) - 1), NaN]"
    by (simp add: period_cell_def upt_rec)
  have "zip (index (resample_returns [10, 20] daily_two_stocks))
          (vals (resample_returns [10, 20] daily_two_stocks))
       = filter (\<lambda>(d, r). \<not> list_all isna r)
               (map (\<lambda>p. (period_keys [10, 20] daily_two_stocks ! p,
                          map (period_cell (interval_rows [10, 20] daily_two_stocks
                                              (period_keys [10, 20] daily_two_stocks ! Suc p)))
                              [0..<length (columns daily_two_stocks)]))
                    [0..<length (period_keys [10, 20] daily_two_stocks) - 1])"
    using resample_returns_cell_undefined_only_if_interval_all_undefined [OF c w, of "[10, 20]"]
    by blast
  also have "\<dots> = [(10, [Fin ((101/100) * (102/100) * (100/100) * (101/100) - 1), NaN])]"
    unfolding period_keys_two_stocks n by (simp add: interval_two_stocks p)
  finally show ?thesis
    using c w period_keys_two_stocks interval_two_stocks resample_daily_scenario by blast
qed

section \<open>Resampling a resampled frame\<close>

text \<open>
  Claim C10, as stated, fails: resampling the result of \<open>resample_returns\<close> onto the
  same schedule does not return the same values at the same dates.  Six daily returns
  over three periods give the period frame with dates 10 and 20; resampling that frame
  again gives one row, at date 10, holding the value that was at date 20.
\<close>

theorem resample_returns_not_idempotent_counterexample:
  "resample_returns [10, 20, 30] daily_three_periods
     = \<lparr>index = [10, 20], columns = [0], vals = [[Fin (11/25)], [Fin (69/100)]]\<rparr>
   \<and> resample_returns [10, 20, 30] (resample_returns [10, 20, 30] daily_three_periods)
     = \<lparr>index = [10], columns = [0], vals = [[Fin (69/100)]]\<rparr>
   \<and> resample_returns [10, 20, 30] (resample_returns [10, 20, 30] daily_three_periods)
     \<noteq> resample_returns [10, 20, 30] daily_three_periods"
  by (simp add: resample_three_periods resample_period_frame)

text \<open>
  Claim C10, amended: applying \<open>resample_returns\<close> to a well-formed frame whose dates
  are strictly increasing dates of the sorted schedule keeps each date in a group of
  its own, whose compounded value is the cell itself; the result is the frame shifted
  back by one row (each date gets the row of the next date) with the rows that are
  undefined in every column, the last one among them, dropped.
\<close>

theorem resample_aligned_returns_shifts_back:
  assumes "sorted sched" and "set (index R) \<subseteq> set sched"
    and "sorted_wrt (<) (index R)" and "wf_frame R"
  shows "resample_returns sched R
         = dropna_all (R\<lparr>vals := shift_up (length (columns R)) (vals R)\<rparr>)"
proof -
  define dates where "dates = sched @ [Max (set (index R))]"
  have keys: "map (\<lambda>d. dates ! searchsorted dates d) (index R) = index R"
    using aligned_key[OF assms(1)] assms(2) by (auto simp: dates_def intro: map_idI)
  have len: "length (vals R) = length (index R)"
    and rows: "\<And>r. r \<in> set (vals R) \<Longrightarrow> length r = length (columns R)"
    using assms(4) by (auto simp: wf_frame_def list_all_iff)
  have g: "groupby (index R) (vals R) = map (\<lambda>(k, r). (k, [r])) (zip (index R) (vals R))"
    by (rule groupby_aligned[OF assms(3) len])
  have G: "map (\<lambda>(k, g). (k, cum_rtns (length (columns R)) g)) (groupby (index R) (vals R))
        = zip (index R) (vals R)"
    unfolding g using rows
    by (auto simp: cum_rtns_single intro!: map_idI dest: set_zip_rightD)
  have "resample_returns sched R
      = dropna_all \<lparr>index = map fst (zip (index R) (vals R)), columns = columns R,
                    vals = shift_up (length (columns R)) (map snd (zip (index R) (vals R)))\<rparr>"
    by (simp only: resample_returns_def Let_def keys[unfolded dates_def] G)
  then have "resample_returns sched R
      = dropna_all \<lparr>index = index R, columns = columns R,
                    vals = shift_up (length (columns R)) (vals R)\<rparr>"
    using len by simp
  then show ?thesis by (cases R) simp
qed

theorem resample_aligned_returns_shifts_back_witness:
  "sorted [10, 20, 30::nat]
   \<and> wf_frame \<lparr>index = [10, 20], columns = [0], vals = [[Fin (11/25)], [Fin (69/100)]]\<rparr>
   \<and> resample_returns [10, 20, 30]
        \<lparr>index = [10, 20], columns = [0], vals = [[Fin (11/25)], [Fin (69/100)]]\<rparr>
      = \<lparr>index = [10], columns = [0], vals = [[Fin (69/100)]]\<rparr>"
proof -
  define R where "R = \<lparr>index = [10, 20], columns = [0], vals = [[Fin (11/25)], [Fin (69/100)]]\<rparr>"
  have h: "sorted [10, 20, 30::nat]" "set (index R) \<subseteq> set [10, 20, 30]"
    "sorted_wrt (<) (index R)" "wf_frame R"
    by (simp_all add: R_def wf_frame_def)
  have "resample_returns [10, 20, 30] R
        = dropna_all (R\<lparr>vals := shift_up (length (columns R)) (vals R)\<rparr>)"
    by (rule resample_aligned_returns_shifts_back [OF h])
  also have "\<dots> = \<lparr>index = [10], columns = [0], vals = [[Fin (69/100)]]\<rparr>"
    by (simp add: R_def dropna_all_def shift_up_def)
  finally show ?thesis using h(1,4) by (simp add: R_def)
qed

section \<open>Facts about the combiner\<close>




lemmas fv = by_column_def rolling_def roll_mean_def shift1_def shift_down_def column_def
  iloc_def upt_rec

lemma factors_df_two:
  "concat_dropna [stack [10, 20, 30] factor_a, stack [10, 20, 30] factor_b]
   = [((10, 7), [Fin 10, Fin 40]), ((20, 7), [Fin 10, Fin 40]), ((30, 7), [Fin 10, Fin 40])]"
  by (simp add: concat_dropna_def stack_def factor_a_def factor_b_def)

lemma hr_decay_weights_two:
  "hr_weights ''HR-decay'' \<lparr>p_window = 2, p_neg_weight = False\<rparr> reg_two
   = Inr \<lparr>index = [10, 20, 30], columns = [0, 1],
      vals = [[NaN, NaN], [Fin 1, Fin 1], [Fin 2, Fin 1]]\<rparr>"
  by (simp add: hr_weights_def fv ewm_last_def reg_two_def)

lemma hr_weights_two:
  "hr_weights ''HR'' \<lparr>p_window = 2, p_neg_weight = False\<rparr> reg_two
   = Inr \<lparr>index = [10, 20, 30], columns = [0, 1],
      vals = [[NaN, NaN], [NaN, NaN], [Fin 1, Fin 1]]\<rparr>"
  by (simp add: hr_weights_def fv reg_two_def)

section \<open>The forward shift of the weights\<close>

text \<open>
  Claim C1 says that for every weight source except \<open>EW\<close> the weight row computed
  from the data up to a rebalance date is shifted forward one period.  The branches
  \<open>HR\<close>, \<open>IC\<close>, \<open>IR\<close>, \<open>MAX_IC\<close> and \<open>MAX_IR\<close> apply \<open>shift1\<close>; the \<open>HR-decay\<close> branch
  does not.  With a window of 2 and the coefficients 1, 3, 5 on three dates, the
  \<open>HR-decay\<close> weight of the third date is 4, computed from the coefficients of the
  second and the third date, where \<open>HR\<close> has the shifted value 2.  Through
  \<open>combine_factors\<close>, with two factors of values 10 and 40 and the coefficients
  \<open>(1, 1), (1, 1), (3, 1)\<close>: \<open>HR-decay\<close> gives the composite 20 on the third date,
  which weighs with that date's own coefficient 3, and \<open>HR\<close> gives 25.
\<close>

theorem hr_decay_weights_not_shifted:
  "hr_weights ''HR-decay'' \<lparr>p_window = 2, p_neg_weight = False\<rparr> reg_three
     = Inr \<lparr>index = [1, 2, 3], columns = [0], vals = [[NaN], [Fin 2], [Fin 4]]\<rparr>
   \<and> hr_weights ''HR'' \<lparr>p_window = 2, p_neg_weight = False\<rparr> reg_three
     = Inr \<lparr>index = [1, 2, 3], columns = [0], vals = [[NaN], [NaN], [Fin 2]]\<rparr>
   \<and> combine_factors env_hr [factor_a, factor_b] ''HR-decay'' ''MR''
        \<lparr>p_window = 2, p_neg_weight = False\<rparr> None
     = Inr (Some \<lparr>index = [10, 20, 30], columns = [7], vals = [[NaN], [Fin 25], [Fin 20]]\<rparr>)
   \<and> combine_factors env_hr [factor_a, factor_b] ''HR'' ''MR''
        \<lparr>p_window = 2, p_neg_weight = False\<rparr> None
     = Inr (Some \<lparr>index = [10, 20, 30], columns = [7], vals = [[NaN], [NaN], [Fin 25]]\<rparr>)"
proof -
  have a: "hr_weights ''HR-decay'' \<lparr>p_window = 2, p_neg_weight = False\<rparr> reg_three
     = Inr \<lparr>index = [1, 2, 3], columns = [0], vals = [[NaN], [Fin 2], [Fin 4]]\<rparr>"
    and b: "hr_weights ''HR'' \<lparr>p_window = 2, p_neg_weight = False\<rparr> reg_three
     = Inr \<lparr>index = [1, 2, 3], columns = [0], vals = [[NaN], [NaN], [Fin 2]]\<rparr>"
    by (simp_all add: hr_weights_def fv ewm_last_def reg_three_def)
  have c: "combine_factors env_hr [factor_a, factor_b] ''HR-decay'' ''MR''
        \<lparr>p_window = 2, p_neg_weight = False\<rparr> None
     = Inr (Some \<lparr>index = [10, 20, 30], columns = [7], vals = [[NaN], [Fin 25], [Fin 20]]\<rparr>)"
    by (simp add: combine_factors_def startswith_def env_hr_def factors_df_two
        hr_decay_weights_two calc_weighted_factors_def weighted_cell_def unstack_def upt_rec)
  have d: "combine_factors env_hr [factor_a, factor_b] ''HR'' ''MR''
        \<lparr>p_window = 2, p_neg_weight = False\<rparr> None
     = Inr (Some \<lparr>index = [10, 20, 30], columns = [7], vals = [[NaN], [NaN], [Fin 25]]\<rparr>)"
    by (simp add: combine_factors_def startswith_def env_hr_def factors_df_two
        hr_weights_two calc_weighted_factors_def weighted_cell_def unstack_def upt_rec)
  show ?thesis using a b c d by blast
qed

section \<open>Unrecognised methods\<close>

text \<open>
  Claim C3 says that every method string outside the seven recognised ones makes
  \<open>combine_factors\<close> raise.  The \<open>ValueError\<close> is raised only for a string that ends
  in \<open>IC\<close> or \<open>IR\<close>: the string \<open>momentum\<close> makes the function return \<open>None\<close>
  without an error, and \<open>HRX\<close> is run as \<open>HR\<close>.
\<close>

theorem unknown_method_returns_none:
  "combine_factors e factors ''momentum'' rebalance params universe = Inr None
   \<and> combine_factors e factors ''HRX'' rebalance params universe
       = combine_factors e factors ''HR'' rebalance params universe
   \<and> combine_factors e (f # fs) ''XIC'' rebalance params universe
       = Inl (ValueError ''Invalid method: XIC'')"
  by (simp add: combine_factors_def startswith_def endswith_def hr_weights_def ic_weights_def Let_def)

section \<open>Row sums of the weights\<close>

text \<open>
  Claim C2, as stated, fails: the weight matrix of the \<open>IC\<close> method is the shifted
  rolling mean of the IC matrix and is not normalised.  With a window of 1 its second
  row is \<open>[0.1, 0.2]\<close>, defined in every column, with sum \<open>0.3\<close>.
\<close>

theorem ic_weight_row_sum_counterexample:
  "ic_weights pinv_2x2 minimize_start ''IC'' \<lparr>p_window = 1, p_neg_weight = False\<rparr> ic_collinear
     = Inr \<lparr>index = [1, 2, 3], columns = [0, 1],
            vals = [[NaN, NaN], [Fin (1/10), Fin (1/5)], [Fin (1/5), Fin (2/5)]]\<rparr>
   \<and> csum [Fin (1/10), Fin (1/5)] = Fin (3/10)
   \<and> \<not> \<bar>3/10 - 1\<bar> \<le> (1 / 1000000 :: real)"
  by (simp add: ic_weights_def fv ic_collinear_def)

text \<open>
  Claim C2, amended: every row of the weight matrix of the analytical maximum-IC
  estimator that has a column and is defined in every column sums to 1 (exactly, in
  real arithmetic).
\<close>

theorem max_ic_defined_rows_sum_to_one:
  assumes "i < length (vals ic_df)"
    and "row = vals (calc_max_ic_weights pinv ic_df window neg_weight) ! i"
    and "row \<noteq> []" and "\<forall>x\<in>set row. \<not> isna x"
  shows "csum row = Fin 1"
proof (cases "window \<le> i")
  case True
  then show ?thesis using assms norm_w_sum by (simp add: vals_max_ic)
next
  case False
  then have "row = replicate (length (columns ic_df)) NaN" using assms by (simp add: vals_max_ic)
  then show ?thesis using assms(3,4) by (cases "length (columns ic_df)") auto
qed

theorem max_ic_defined_rows_sum_to_one_witness:
  "vals (calc_max_ic_weights pinv_2x2 ic_collinear 2 False) ! 2 = [Fin (1/3), Fin (2/3)]
   \<and> csum [Fin (1/3), Fin (2/3)] = Fin 1"
proof -
  have r: "vals (calc_max_ic_weights pinv_2x2 ic_collinear 2 False) ! 2 = [Fin (1/3), Fin (2/3)]"
    by (simp add: vals_max_ic ev ic_collinear_def)
  have l: "2 < length (vals ic_collinear)" by (simp add: ic_collinear_def)
  have "csum [Fin (1/3), Fin (2/3)] = Fin 1"
    using max_ic_defined_rows_sum_to_one [OF l r [symmetric]] by simp
  then show ?thesis using r by blast
qed

section \<open>The sign of the weights\<close>

text \<open>
  Claim C4, as stated, fails: with \<open>neg_weight\<close> false the \<open>IC\<close> method still takes
  the rolling mean of the IC matrix as it is, and a negative IC gives the negative
  weight \<open>-0.1\<close>.
\<close>

theorem ic_weight_negative_counterexample:
  "ic_weights pinv_2x2 minimize_start ''IC'' \<lparr>p_window = 1, p_neg_weight = False\<rparr> ic_negative
     = Inr \<lparr>index = [1, 2], columns = [0, 1],
            vals = [[NaN, NaN], [Fin (- (1/10)), Fin (1/20)]]\<rparr>
   \<and> - (1/10) < (0::real)"
  by (simp add: ic_weights_def fv ic_negative_def)

text \<open>
  Claim C4, amended: with \<open>neg_weight\<close> false, every defined weight of the analytical
  maximum-IC estimator is a finite number that is not negative.
\<close>

theorem max_ic_weights_nonnegative:
  assumes "i < length (vals ic_df)"
    and "x \<in> set (vals (calc_max_ic_weights pinv ic_df window False) ! i)"
    and "\<not> isna x"
  shows "\<exists>a. x = Fin a \<and> 0 \<le> a"
proof (cases "window \<le> i")
  case True
  then show ?thesis using assms norm_w_nonneg by (simp add: vals_max_ic)
next
  case False
  then show ?thesis using assms by (auto simp: vals_max_ic)
qed

theorem max_ic_weights_nonnegative_witness:
  "raw_w pinv_2x2 2 (iloc 0 2 (vals ic_mixed)) = [Fin (-2), Fin 4]
   \<and> vals (calc_max_ic_weights pinv_2x2 ic_mixed 2 False) ! 2 = [Fin 0, Fin 1]
   \<and> (\<exists>a. Fin 0 = Fin a \<and> 0 \<le> a)"
proof -
  have r0: "raw_w pinv_2x2 2 (iloc 0 2 (vals ic_mixed)) = [Fin (-2), Fin 4]"
    by (simp add: ev ic_mixed_def)
  have r: "vals (calc_max_ic_weights pinv_2x2 ic_mixed 2 False) ! 2 = [Fin 0, Fin 1]"
    by (simp add: vals_max_ic ev ic_mixed_def)
  have l: "2 < length (vals ic_mixed)" by (simp add: ic_mixed_def)
  have m: "Fin 0 \<in> set (vals (calc_max_ic_weights pinv_2x2 ic_mixed 2 False) ! 2)"
    by (simp add: r)
  have "\<exists>a. Fin 0 = Fin a \<and> 0 \<le> a"
    using max_ic_weights_nonnegative [OF l m] by simp
  then show ?thesis using r0 r by blast
qed

section \<open>The weighted average of the factors\<close>




end
